theory Spec2Isabelle
  imports Main "HOL-Library.Word"
begin

unbundle bit_operations_syntax

section \<open>Data model\<close>

text \<open>
  The esp-idf structures that the manager copies, compares and stores as blobs
  (\<open>wifi_config_t\<close>, \<open>tcpip_adapter_ip_info_t\<close>, \<open>tcpip_adapter_dns_info_t\<close>) are
  modelled as their object representation: a list of bytes.  Their sizes and the few
  layout facts the code depends on come from esp-idf headers that are not part of the
  repository, so they are parameters of the model.
\<close>

type_synonym bytes = "8 word list"
type_synonym TickType_t = "32 word"
type_synonym EventBits_t = "32 word"
type_synonym wifi_mode_t = "32 word"

record platform =
  SIZEOF_WIFI_CONFIG :: nat
  OFFSETOF_MAX_CONNECTION :: nat
  SIZEOF_IP_INFO :: nat
  SIZEOF_DNS_INFO :: nat
  SIZEOF_AP_RECORD :: nat
  TCPIP_ADAPTER_DNS_MAX :: nat
  ip_addr_isany_val :: "bytes \<Rightarrow> bool"
  portTICK_PERIOD_MS :: nat
  CONFIG_WMNGR_TASK :: bool

text \<open>\<open>esp_err_t\<close>: the codes the manager itself produces or tests, and any other code.\<close>

datatype esp_err_t =
    ESP_OK
  | ESP_FAIL
  | ESP_ERR_NO_MEM
  | ESP_ERR_INVALID_STATE
  | ESP_ERR_NOT_FOUND
  | ESP_ERR_TIMEOUT
  | ESP_ERR_NVS_NOT_FOUND
  | ESP_ERR_NVS_INVALID_LENGTH
  | ESP_ERR_OTHER int

text \<open>\<open>wifi_mode_t\<close> is a C enum; the values are those of esp-idf's \<open>esp_wifi_types.h\<close>.\<close>

definition WIFI_MODE_NULL :: wifi_mode_t where "WIFI_MODE_NULL = 0"
definition WIFI_MODE_STA :: wifi_mode_t where "WIFI_MODE_STA = 1"
definition WIFI_MODE_AP :: wifi_mode_t where "WIFI_MODE_AP = 2"
definition WIFI_MODE_APSTA :: wifi_mode_t where "WIFI_MODE_APSTA = 3"

text \<open>\<open>struct wifi_cfg\<close> of \<open>wifi_manager.h\<close>, fields in the order of the header.\<close>

record wifi_cfg =
  is_default :: bool
  mode :: wifi_mode_t
  ap :: bytes
  ap_ip_info :: bytes
  sta :: bytes
  sta_static :: bool
  sta_ip_info :: bytes
  sta_dns_info :: bytes
  sta_connect :: bool

definition sizeof_sta_dns_info :: "platform \<Rightarrow> nat" where
  "sizeof_sta_dns_info P = TCPIP_ADAPTER_DNS_MAX P * SIZEOF_DNS_INFO P"

text \<open>A \<open>struct wifi_cfg\<close> value has members of exactly the sizes of their C types.\<close>

definition wf_cfg :: "platform \<Rightarrow> wifi_cfg \<Rightarrow> bool" where
  "wf_cfg P c \<longleftrightarrow>
     length (ap c) = SIZEOF_WIFI_CONFIG P \<and>
     length (sta c) = SIZEOF_WIFI_CONFIG P \<and>
     length (ap_ip_info c) = SIZEOF_IP_INFO P \<and>
     length (sta_ip_info c) = SIZEOF_IP_INFO P \<and>
     length (sta_dns_info c) = sizeof_sta_dns_info P"

text \<open>\<open>memset(p, 0x0, n)\<close>.\<close>

definition zeroes :: "nat \<Rightarrow> bytes" where
  "zeroes n = replicate n 0"

text \<open>\<open>memset(cfg, 0x0, sizeof(*cfg))\<close>.\<close>

definition zero_cfg :: "platform \<Rightarrow> wifi_cfg" where
  "zero_cfg P = \<lparr> is_default = False, mode = 0,
     ap = zeroes (SIZEOF_WIFI_CONFIG P),
     ap_ip_info = zeroes (SIZEOF_IP_INFO P),
     sta = zeroes (SIZEOF_WIFI_CONFIG P),
     sta_static = False,
     sta_ip_info = zeroes (SIZEOF_IP_INFO P),
     sta_dns_info = zeroes (sizeof_sta_dns_info P),
     sta_connect = False \<rparr>"

section \<open>Persistence adapter\<close>

text \<open>
  The key-value store is an external collaborator.  Its contract, as the manager uses
  it: the namespace \<open>esp_wmngr\<close> is a finite map from keys to typed entries; a
  mutating call that the store reports as failed leaves the map unchanged; a read of a
  missing key (or of a key of the other type) reports \<open>ESP_ERR_NVS_NOT_FOUND\<close>; a blob
  read into a buffer that is too small reports \<open>ESP_ERR_NVS_INVALID_LENGTH\<close>, otherwise
  it overwrites the front of the buffer and returns the stored length.
\<close>

datatype nvs_entry = NVS_U32 "32 word" | NVS_BLOB bytes

type_synonym nvs_store = "string \<rightharpoonup> nvs_entry"

text \<open>What the store answers to the calls of one \<open>save_config\<close>.\<close>

record nvs_env =
  nvs_open_r :: esp_err_t
  nvs_erase_all_r :: esp_err_t
  nvs_commit_r :: esp_err_t
  nvs_set_r :: "string \<Rightarrow> esp_err_t"
  nvs_erase_all_cleanup_r :: esp_err_t

definition nvs_erase_all :: "esp_err_t \<Rightarrow> nvs_store \<Rightarrow> esp_err_t \<times> nvs_store" where
  "nvs_erase_all r st = (if r = ESP_OK then (ESP_OK, Map.empty) else (r, st))"

definition nvs_set_u32 :: "esp_err_t \<Rightarrow> string \<Rightarrow> 32 word \<Rightarrow> nvs_store \<Rightarrow> esp_err_t \<times> nvs_store" where
  "nvs_set_u32 r key v st = (if r = ESP_OK then (ESP_OK, st(key \<mapsto> NVS_U32 v)) else (r, st))"

definition nvs_set_blob :: "esp_err_t \<Rightarrow> string \<Rightarrow> bytes \<Rightarrow> nat \<Rightarrow> nvs_store \<Rightarrow> esp_err_t \<times> nvs_store" where
  "nvs_set_blob r key buf len st =
     (if r = ESP_OK then (ESP_OK, st(key \<mapsto> NVS_BLOB (take len buf))) else (r, st))"

definition nvs_get_u32 :: "nvs_store \<Rightarrow> string \<Rightarrow> esp_err_t + 32 word" where
  "nvs_get_u32 st key =
     (case st key of Some (NVS_U32 v) \<Rightarrow> Inr v | _ \<Rightarrow> Inl ESP_ERR_NVS_NOT_FOUND)"

text \<open>Returns the result code, the buffer and the length written back through \<open>&len\<close>.\<close>

definition nvs_get_blob :: "nvs_store \<Rightarrow> string \<Rightarrow> bytes \<Rightarrow> nat \<Rightarrow> esp_err_t \<times> bytes \<times> nat" where
  "nvs_get_blob st key buf len =
     (case st key of
        Some (NVS_BLOB bs) \<Rightarrow>
          if length bs \<le> len then (ESP_OK, bs @ drop (length bs) buf, length bs)
          else (ESP_ERR_NVS_INVALID_LENGTH, buf, length bs)
      | _ \<Rightarrow> (ESP_ERR_NVS_NOT_FOUND, buf, len))"

text \<open>The size check that follows every \<open>nvs_get_blob\<close> in \<open>get_saved_config\<close>.\<close>

definition blob_check :: "esp_err_t \<Rightarrow> nat \<Rightarrow> nat \<Rightarrow> esp_err_t" where
  "blob_check result len sz =
     (if result \<noteq> ESP_OK \<or> len \<noteq> sz
      then (if result \<noteq> ESP_OK then result else ESP_ERR_NOT_FOUND)
      else ESP_OK)"

text \<open>
  \<open>get_saved_config\<close>: the first argument is the result of \<open>nvs_open\<close>.  Returns the
  result code and the contents of \<open>*cfg\<close> on return.
\<close>

definition get_saved_config :: "platform \<Rightarrow> esp_err_t \<Rightarrow> nvs_store \<Rightarrow> esp_err_t \<times> wifi_cfg" where
  "get_saved_config P open_r st =
    (let cfg = zero_cfg P in
     if open_r \<noteq> ESP_OK then (open_r, cfg) else
     case nvs_get_u32 st ''mode'' of Inl e \<Rightarrow> (e, cfg) | Inr tmp \<Rightarrow>
     let cfg = cfg\<lparr>mode := tmp\<rparr> in
     case nvs_get_u32 st ''sta_static'' of Inl e \<Rightarrow> (e, cfg) | Inr tmp \<Rightarrow>
     let cfg = cfg\<lparr>sta_static := (tmp \<noteq> 0)\<rparr> in
     case nvs_get_u32 st ''sta_connect'' of Inl e \<Rightarrow> (e, cfg) | Inr tmp \<Rightarrow>
     let cfg = cfg\<lparr>sta_connect := (tmp \<noteq> 0)\<rparr> in
     case nvs_get_blob st ''ap'' (ap cfg) (SIZEOF_WIFI_CONFIG P) of (r, buf, len) \<Rightarrow>
     let cfg = cfg\<lparr>ap := buf\<rparr>; r = blob_check r len (SIZEOF_WIFI_CONFIG P) in
     if r \<noteq> ESP_OK then (r, cfg) else
     case nvs_get_blob st ''sta'' (sta cfg) (SIZEOF_WIFI_CONFIG P) of (r, buf, len) \<Rightarrow>
     let cfg = cfg\<lparr>sta := buf\<rparr>; r = blob_check r len (SIZEOF_WIFI_CONFIG P) in
     if r \<noteq> ESP_OK then (r, cfg) else
     case nvs_get_blob st ''ap_ip'' (ap_ip_info cfg) (SIZEOF_IP_INFO P) of (r, buf, len) \<Rightarrow>
     let cfg = cfg\<lparr>ap_ip_info := buf\<rparr>; r = blob_check r len (SIZEOF_IP_INFO P) in
     if r \<noteq> ESP_OK then (r, cfg) else
     case nvs_get_blob st ''sta_ip'' (sta_ip_info cfg) (SIZEOF_IP_INFO P) of (r, buf, len) \<Rightarrow>
     let cfg = cfg\<lparr>sta_ip_info := buf\<rparr>; r = blob_check r len (SIZEOF_IP_INFO P) in
     if r \<noteq> ESP_OK then (r, cfg) else
     case nvs_get_blob st ''sta_dns'' (sta_dns_info cfg) (sizeof_sta_dns_info P) of (r, buf, len) \<Rightarrow>
     let cfg = cfg\<lparr>sta_dns_info := buf\<rparr>; r = blob_check r len (sizeof_sta_dns_info P) in
     (r, cfg))"

text \<open>
  The chain of field writes of \<open>save_config\<close> (from \<open>nvs_set_u32(handle, "mode", ...)\<close>
  to the last \<open>nvs_set_blob\<close>): each failure jumps to \<open>on_exit\<close> with the store as it
  is at that point.
\<close>

definition write_fields :: "platform \<Rightarrow> nvs_env \<Rightarrow> wifi_cfg \<Rightarrow> nvs_store \<Rightarrow> esp_err_t \<times> nvs_store" where
  "write_fields P ne cfg st =
    (case nvs_set_u32 (nvs_set_r ne ''mode'') ''mode'' (mode cfg) st of (r, st) \<Rightarrow>
     if r \<noteq> ESP_OK then (r, st) else
     case nvs_set_u32 (nvs_set_r ne ''sta_static'') ''sta_static'' (of_bool (sta_static cfg)) st of (r, st) \<Rightarrow>
     if r \<noteq> ESP_OK then (r, st) else
     case nvs_set_u32 (nvs_set_r ne ''sta_connect'') ''sta_connect'' (of_bool (sta_connect cfg)) st of (r, st) \<Rightarrow>
     if r \<noteq> ESP_OK then (r, st) else
     case nvs_set_blob (nvs_set_r ne ''ap'') ''ap'' (ap cfg) (SIZEOF_WIFI_CONFIG P) st of (r, st) \<Rightarrow>
     if r \<noteq> ESP_OK then (r, st) else
     case nvs_set_blob (nvs_set_r ne ''sta'') ''sta'' (sta cfg) (SIZEOF_WIFI_CONFIG P) st of (r, st) \<Rightarrow>
     if r \<noteq> ESP_OK then (r, st) else
     case nvs_set_blob (nvs_set_r ne ''ap_ip'') ''ap_ip'' (ap_ip_info cfg) (SIZEOF_IP_INFO P) st of (r, st) \<Rightarrow>
     if r \<noteq> ESP_OK then (r, st) else
     case nvs_set_blob (nvs_set_r ne ''sta_ip'') ''sta_ip'' (sta_ip_info cfg) (SIZEOF_IP_INFO P) st of (r, st) \<Rightarrow>
     if r \<noteq> ESP_OK then (r, st) else
     nvs_set_blob (nvs_set_r ne ''sta_dns'') ''sta_dns'' (sta_dns_info cfg) (sizeof_sta_dns_info P) st)"

text \<open>
  \<open>save_config\<close>: open, erase, commit, stop for a default configuration, otherwise
  write the fields; at \<open>on_exit\<close> a failure erases the namespace again, the result of
  that erase being discarded.  The closing \<open>nvs_commit\<close> and \<open>nvs_close\<close> do not change
  the map.
\<close>

definition save_config :: "platform \<Rightarrow> nvs_env \<Rightarrow> wifi_cfg \<Rightarrow> nvs_store \<Rightarrow> esp_err_t \<times> nvs_store" where
  "save_config P ne cfg st =
    (if nvs_open_r ne \<noteq> ESP_OK then (nvs_open_r ne, st) else
     case (case nvs_erase_all (nvs_erase_all_r ne) st of (r, st) \<Rightarrow>
             if r \<noteq> ESP_OK then (r, st) else
             if nvs_commit_r ne \<noteq> ESP_OK then (nvs_commit_r ne, st) else
             if is_default cfg then (ESP_OK, st) else
             write_fields P ne cfg st)
     of (result, st) \<Rightarrow>
       if result \<noteq> ESP_OK
       then (result, snd (nvs_erase_all (nvs_erase_all_cleanup_r ne) st))
       else (result, st))"

section \<open>Event flags, states and the world\<close>

text \<open>The bits of the event group \<open>wifi_events\<close> (\<open>BITn\<close> is \<open>1 << n\<close>).\<close>

definition BIT_TRIGGER :: EventBits_t where "BIT_TRIGGER = 2 ^ 0"
definition BIT_STA_START :: EventBits_t where "BIT_STA_START = 2 ^ 1"
definition BIT_STA_CONNECTED :: EventBits_t where "BIT_STA_CONNECTED = 2 ^ 2"
definition BIT_STA_GOT_IP :: EventBits_t where "BIT_STA_GOT_IP = 2 ^ 3"
definition BIT_AP_START :: EventBits_t where "BIT_AP_START = 2 ^ 4"
definition BIT_SCAN_START :: EventBits_t where "BIT_SCAN_START = 2 ^ 5"
definition BIT_SCAN_RUNNING :: EventBits_t where "BIT_SCAN_RUNNING = 2 ^ 6"
definition BIT_SCAN_DONE :: EventBits_t where "BIT_SCAN_DONE = 2 ^ 7"
definition BIT_WPS_SUCCESS :: EventBits_t where "BIT_WPS_SUCCESS = 2 ^ 8"
definition BIT_WPS_FAILED :: EventBits_t where "BIT_WPS_FAILED = 2 ^ 9"
definition BITS_WPS :: EventBits_t where "BITS_WPS = BIT_WPS_SUCCESS OR BIT_WPS_FAILED"

definition MAX_AP_CLIENTS :: "8 word" where "MAX_AP_CLIENTS = 3"
definition MAX_NUM_APS :: "16 word" where "MAX_NUM_APS = 32"

definition CFG_TIMEOUT :: "platform \<Rightarrow> TickType_t" where
  "CFG_TIMEOUT P = of_nat (60 * 1000 div portTICK_PERIOD_MS P)"
definition CFG_TICKS :: "platform \<Rightarrow> TickType_t" where
  "CFG_TICKS P = of_nat (1000 div portTICK_PERIOD_MS P)"
definition CFG_DELAY :: "platform \<Rightarrow> TickType_t" where
  "CFG_DELAY P = of_nat (100 div portTICK_PERIOD_MS P)"

text \<open>\<open>time_after(a, b)\<close> of \<open>kutils.h\<close>: \<open>(long)((b) - (a)) < 0\<close> on 32-bit ticks.\<close>

definition time_after :: "TickType_t \<Rightarrow> TickType_t \<Rightarrow> bool" where
  "time_after a b \<longleftrightarrow> sint (b - a) < 0"

datatype wmngr_state =
    wmngr_state_failed
  | wmngr_state_connected
  | wmngr_state_idle
  | wmngr_state_update
  | wmngr_state_wps_start
  | wmngr_state_wps_active
  | wmngr_state_connecting
  | wmngr_state_disconnecting
  | wmngr_state_fallback

text \<open>The value of the enumerator, for the comparisons with \<open>wmngr_state_idle\<close>.\<close>

fun state_val :: "wmngr_state \<Rightarrow> nat" where
  "state_val wmngr_state_failed = 0"
| "state_val wmngr_state_connected = 1"
| "state_val wmngr_state_idle = 2"
| "state_val wmngr_state_update = 3"
| "state_val wmngr_state_wps_start = 4"
| "state_val wmngr_state_wps_active = 5"
| "state_val wmngr_state_connecting = 6"
| "state_val wmngr_state_disconnecting = 7"
| "state_val wmngr_state_fallback = 8"

datatype tcpip_adapter_dhcp_status_t =
  TCPIP_ADAPTER_DHCP_INIT | TCPIP_ADAPTER_DHCP_STARTED | TCPIP_ADAPTER_DHCP_STOPPED

datatype wifi_scan_type_t = WIFI_SCAN_TYPE_ACTIVE | WIFI_SCAN_TYPE_PASSIVE

text \<open>
  The commands the manager sends to its collaborators (radio driver, IP adapter, timer),
  recorded in the order in which they are issued.
\<close>

datatype call =
    Esp_wifi_scan_stop
  | Esp_wifi_disconnect
  | Esp_wifi_restore
  | Esp_wifi_set_mode wifi_mode_t
  | Esp_wifi_set_config_ap bytes
  | Esp_wifi_set_config_sta bytes
  | Tcpip_adapter_dhcpc_stop
  | Tcpip_adapter_dhcpc_start
  | Tcpip_adapter_set_dns_info nat bytes
  | Esp_wifi_start
  | Esp_wifi_connect
  | Esp_wifi_scan_start (show_hidden: bool) (scan_type: wifi_scan_type_t) (block: bool)
  | Esp_wifi_wps_enable
  | Esp_wifi_wps_start
  | Esp_wifi_wps_disable
  | XTimerChangePeriod TickType_t

text \<open>\<open>struct scan_data\<close> and \<open>struct scan_data_ref\<close>; \<open>ap_records\<close> is a pointer.\<close>

record scan_data =
  tstamp :: TickType_t
  ap_records :: "nat option"
  num_records :: "16 word"

record scan_data_ref =
  ref_cnt :: int
  status :: "32 word"
  data :: scan_data

text \<open>
  The world: the members of \<open>cfg_state\<close> (the lock apart), the event group, the
  persistent store, the heap of scan snapshots and of their record arrays (\<open>free\<close>
  removes the entry; \<open>calloc\<close> never hands out an address twice), a flag raised by a
  failed \<open>configASSERT\<close> or an access to freed memory, and the commands issued so far.
\<close>

record world =
  cfg_timestamp :: TickType_t
  state :: wmngr_state
  saved :: wifi_cfg
  current :: wifi_cfg
  new :: wifi_cfg
  scan_ref :: "nat option"
  wifi_events :: EventBits_t
  nvs :: nvs_store
  heap :: "nat \<rightharpoonup> scan_data_ref"
  arrays :: "nat \<rightharpoonup> bytes list"
  next_addr :: nat
  fault :: bool
  calls :: "call list"

text \<open>
  The answers of the collaborators.  Every call whose result the code inspects has its
  own answer; within one state-machine step or one public call each of them is made at
  most once.
\<close>

record get_env =
  get_mode_r :: "esp_err_t \<times> wifi_mode_t"
  get_config_sta_r :: "esp_err_t \<times> bytes"
  dhcpc_get_status_r :: "esp_err_t \<times> tcpip_adapter_dhcp_status_t"
  get_dns_info_r :: "nat \<Rightarrow> esp_err_t \<times> bytes"
  get_config_ap_r :: "esp_err_t \<times> bytes"

record set_env =
  restore_r :: esp_err_t
  set_mode_r :: esp_err_t
  set_config_ap_r :: esp_err_t
  set_config_sta_r :: esp_err_t
  set_dns_info_r :: "nat \<Rightarrow> esp_err_t"
  start_r :: esp_err_t
  connect_r :: esp_err_t

record scan_env =
  scan_get_mode_r :: "esp_err_t \<times> wifi_mode_t"
  scan_start_r :: esp_err_t
  scan_get_ap_num_r :: "esp_err_t \<times> 16 word"
  calloc_ref_ok :: bool
  calloc_records_ok :: bool
  scan_tick :: TickType_t
  scan_get_ap_records_r :: "esp_err_t \<times> 16 word \<times> bytes list"

record env =
  lock_taken :: bool
  timer_pass :: bool
  tick_count :: TickType_t
  wifi_get_mode_r :: "esp_err_t \<times> wifi_mode_t"
  e_get :: get_env
  e_set :: set_env
  wps_enable_r :: esp_err_t
  wps_start_r :: esp_err_t
  wps_disable_r :: esp_err_t
  e_nvs :: nvs_env
  e_scan :: scan_env

definition log_calls :: "call list \<Rightarrow> world \<Rightarrow> world" where
  "log_calls cs w = w\<lparr>calls := calls w @ cs\<rparr>"

definition xEventGroupSetBits :: "EventBits_t \<Rightarrow> world \<Rightarrow> world" where
  "xEventGroupSetBits bits w = w\<lparr>wifi_events := wifi_events w OR bits\<rparr>"

definition xEventGroupClearBits :: "EventBits_t \<Rightarrow> world \<Rightarrow> world" where
  "xEventGroupClearBits bits w = w\<lparr>wifi_events := wifi_events w AND NOT bits\<rparr>"

definition sta_connected :: "world \<Rightarrow> bool" where
  "sta_connected w \<longleftrightarrow> wifi_events w AND BIT_STA_CONNECTED \<noteq> 0"

section \<open>Scan snapshots\<close>

text \<open>
  The count of a \<open>struct kref\<close> is an \<open>atomic_int\<close>, a 32-bit integer in two's
  complement: \<open>atomic_fetch_add\<close> and \<open>atomic_fetch_sub\<close> wrap around silently.
\<close>

definition atomic_int_wrap :: "int \<Rightarrow> int" where
  "atomic_int_wrap i = (i + 2 ^ 31) mod 2 ^ 32 - 2 ^ 31"

text \<open>\<open>kref_get\<close>: \<open>atomic_fetch_add\<close>, then \<open>configASSERT(old >= 1)\<close>.\<close>

definition kref_get :: "nat \<Rightarrow> world \<Rightarrow> world" where
  "kref_get a w =
    (case heap w a of
       None \<Rightarrow> w\<lparr>fault := True\<rparr>
     | Some r \<Rightarrow>
         let old = ref_cnt r;
             w = w\<lparr>heap := (heap w)(a \<mapsto> r\<lparr>ref_cnt := atomic_int_wrap (old + 1)\<rparr>)\<rparr>
         in if old \<ge> 1 then w else w\<lparr>fault := True\<rparr>)"

text \<open>\<open>free_scan_data\<close>: \<open>free(data->data.ap_records); free(data);\<close>\<close>

definition free_scan_data :: "nat \<Rightarrow> world \<Rightarrow> world" where
  "free_scan_data a w =
    (case heap w a of
       None \<Rightarrow> w\<lparr>fault := True\<rparr>
     | Some r \<Rightarrow>
         let w = (case ap_records (data r) of
                    None \<Rightarrow> w
                  | Some p \<Rightarrow>
                      if arrays w p \<noteq> None then w\<lparr>arrays := (arrays w)(p := None)\<rparr>
                      else w\<lparr>fault := True\<rparr>)
         in w\<lparr>heap := (heap w)(a := None)\<rparr>)"

text \<open>
  \<open>kref_put\<close> with \<open>free_scan_data\<close> as release function: \<open>atomic_fetch_sub\<close>,
  \<open>configASSERT(old >= 1)\<close>, release when \<open>old == 1\<close>.
\<close>

definition kref_put :: "nat \<Rightarrow> world \<Rightarrow> world" where
  "kref_put a w =
    (case heap w a of
       None \<Rightarrow> w\<lparr>fault := True\<rparr>
     | Some r \<Rightarrow>
         let old = ref_cnt r;
             w = w\<lparr>heap := (heap w)(a \<mapsto> r\<lparr>ref_cnt := atomic_int_wrap (old - 1)\<rparr>)\<rparr>
         in if \<not> old \<ge> 1 then w\<lparr>fault := True\<rparr>
            else if old = 1 then free_scan_data a w
            else w)"

text \<open>
  \<open>esp_wmngr_put_scan\<close>: a \<open>struct scan_data *\<close> is represented by the address of the
  \<open>scan_data_ref\<close> that contains it (\<open>container_of\<close>).
\<close>

definition esp_wmngr_put_scan :: "nat \<Rightarrow> world \<Rightarrow> world" where
  "esp_wmngr_put_scan a w = kref_put a w"

text \<open>
  \<open>esp_wmngr_get_scan\<close>: the first argument tells whether the lock was obtained within
  \<open>CFG_DELAY\<close>.  The lock exists (the manager is initialised).
\<close>

definition esp_wmngr_get_scan :: "bool \<Rightarrow> world \<Rightarrow> nat option \<times> world" where
  "esp_wmngr_get_scan lock_ok w =
    (case scan_ref w of
       None \<Rightarrow> (None, w)
     | Some a \<Rightarrow> if lock_ok then (Some a, kref_get a w) else (None, w))"

text \<open>
  The pieces of \<open>wifi_scan_done\<close>.  \<open>calloc_scan_ref\<close>: \<open>new = calloc(1, sizeof(*new))\<close>
  followed by \<open>kref_init\<close>; returns the address.
\<close>

definition calloc_scan_ref :: "world \<Rightarrow> nat \<times> world" where
  "calloc_scan_ref w =
    (let a = next_addr w in
     (a, w\<lparr>heap := (heap w)(a \<mapsto> \<lparr>ref_cnt = 1, status = 0,
                    data = \<lparr>tstamp = 0, ap_records = None, num_records = 0\<rparr>\<rparr>),
            next_addr := Suc a\<rparr>))"

text \<open>\<open>new->data.ap_records = calloc(num_aps, sizeof(*(new->data.ap_records)))\<close>.\<close>

definition calloc_ap_records :: "platform \<Rightarrow> 16 word \<Rightarrow> nat \<Rightarrow> world \<Rightarrow> world" where
  "calloc_ap_records P num_aps a w =
    (case heap w a of
       None \<Rightarrow> w\<lparr>fault := True\<rparr>
     | Some r \<Rightarrow>
         let p = next_addr w in
         w\<lparr>heap := (heap w)(a \<mapsto> r\<lparr>data := (data r)\<lparr>ap_records := Some p\<rparr>\<rparr>),
           arrays := (arrays w)(p \<mapsto> replicate (unat num_aps) (zeroes (SIZEOF_AP_RECORD P))),
           next_addr := Suc p\<rparr>)"

text \<open>
  The time stamp, the record count and \<open>esp_wifi_scan_get_ap_records\<close>, which on success
  fills the array and stores the number of records it returned.
\<close>

definition fetch_ap_records :: "scan_env \<Rightarrow> 16 word \<Rightarrow> nat \<Rightarrow> world \<Rightarrow> world" where
  "fetch_ap_records sc num_aps a w =
    (case heap w a of
       None \<Rightarrow> w\<lparr>fault := True\<rparr>
     | Some r \<Rightarrow>
         (case scan_get_ap_records_r sc of (result, n, recs) \<Rightarrow>
          let w = w\<lparr>heap := (heap w)(a \<mapsto> r\<lparr>data := (data r)\<lparr>tstamp := scan_tick sc,
                       num_records := (if result = ESP_OK then n else num_aps)\<rparr>\<rparr>)\<rparr>
          in case ap_records (data r) of
               None \<Rightarrow> w\<lparr>fault := True\<rparr>
             | Some p \<Rightarrow> if result = ESP_OK then w\<lparr>arrays := (arrays w)(p \<mapsto> recs)\<rparr> else w))"

text \<open>
  "Make new scan data available": \<open>kref_get\<close> for the global pointer, the swap of
  \<open>cfg_state.scan_ref\<close>, and the release of the old snapshot, if there was one.
\<close>

definition publish_scan :: "nat \<Rightarrow> world \<Rightarrow> world" where
  "publish_scan a w =
    (let w = kref_get a w;
         old = scan_ref w;
         w = w\<lparr>scan_ref := Some a\<rparr>
     in case old of None \<Rightarrow> w | Some prev \<Rightarrow> esp_wmngr_put_scan prev w)"

text \<open>\<open>wifi_scan_done\<close>; the last \<open>esp_wmngr_put_scan\<close> of each path is the one at \<open>on_exit\<close>.\<close>

definition wifi_scan_done :: "platform \<Rightarrow> scan_env \<Rightarrow> world \<Rightarrow> world" where
  "wifi_scan_done P sc w =
    (case scan_get_ap_num_r sc of (result, num_aps) \<Rightarrow>
     if result \<noteq> ESP_OK \<or> num_aps = 0
     then xEventGroupClearBits (BIT_SCAN_RUNNING OR BIT_SCAN_DONE) w
     else
       let num_aps = (if num_aps > MAX_NUM_APS then MAX_NUM_APS else num_aps) in
       if \<not> calloc_ref_ok sc then w
       else
         case calloc_scan_ref w of (a, w) \<Rightarrow>
           if \<not> calloc_records_ok sc then esp_wmngr_put_scan a w
           else
             let w = calloc_ap_records P num_aps a w;
                 w = fetch_ap_records sc num_aps a w;
                 w = xEventGroupClearBits (BIT_SCAN_RUNNING OR BIT_SCAN_DONE) w
             in if fst (scan_get_ap_records_r sc) \<noteq> ESP_OK then esp_wmngr_put_scan a w
                else esp_wmngr_put_scan a (publish_scan a w))"

text \<open>\<open>wifi_scan_start\<close>.\<close>

definition wifi_scan_start :: "scan_env \<Rightarrow> world \<Rightarrow> world" where
  "wifi_scan_start sc w =
    (if state_val (state w) > state_val wmngr_state_idle then w
     else
       let w = xEventGroupClearBits BIT_SCAN_START w in
       case scan_get_mode_r sc of (result, m) \<Rightarrow>
       if result \<noteq> ESP_OK then w
       else if m \<noteq> WIFI_MODE_APSTA \<and> m \<noteq> WIFI_MODE_STA then w
       else
         let events = wifi_events w in
         if events AND (BIT_SCAN_RUNNING OR BIT_SCAN_DONE) = 0
         then
           let w = xEventGroupSetBits BIT_SCAN_START w;
               w = log_calls [Esp_wifi_scan_start True WIFI_SCAN_TYPE_ACTIVE False] w
           in if scan_start_r sc = ESP_OK then xEventGroupSetBits BIT_SCAN_RUNNING w else w
         else w)"

section \<open>Applying and reading the radio configuration\<close>

text \<open>\<open>cfg->sta_dns_info[idx]\<close> and the assignment to it.\<close>

definition dns_entry :: "platform \<Rightarrow> bytes \<Rightarrow> nat \<Rightarrow> bytes" where
  "dns_entry P dns idx = take (SIZEOF_DNS_INFO P) (drop (idx * SIZEOF_DNS_INFO P) dns)"

definition set_dns_entry :: "platform \<Rightarrow> bytes \<Rightarrow> nat \<Rightarrow> bytes \<Rightarrow> bytes" where
  "set_dns_entry P dns idx e =
     take (idx * SIZEOF_DNS_INFO P) dns @ take (SIZEOF_DNS_INFO P) e
       @ drop (Suc idx * SIZEOF_DNS_INFO P) dns"

text \<open>\<open>cfg->ap.ap.max_connection = MAX_AP_CLIENTS\<close>.\<close>

definition set_max_connection :: "platform \<Rightarrow> bytes \<Rightarrow> bytes" where
  "set_max_connection P b = b[OFFSETOF_MAX_CONNECTION P := MAX_AP_CLIENTS]"

text \<open>
  The loop of \<open>set_wifi_cfg\<close> over the static DNS servers: entries that are "any" are
  skipped, the first failure leaves the function.  Returns the commands issued and the
  error, if any.
\<close>

fun set_dns_loop :: "platform \<Rightarrow> (nat \<Rightarrow> esp_err_t) \<Rightarrow> bytes \<Rightarrow> nat list \<Rightarrow> call list \<times> esp_err_t option" where
  "set_dns_loop P r dns [] = ([], None)"
| "set_dns_loop P r dns (idx # rest) =
     (let e = dns_entry P dns idx in
      if ip_addr_isany_val P e then set_dns_loop P r dns rest
      else if r idx \<noteq> ESP_OK then ([Tcpip_adapter_set_dns_info idx e], Some (r idx))
      else (case set_dns_loop P r dns rest of
              (cs, res) \<Rightarrow> (Tcpip_adapter_set_dns_info idx e # cs, res)))"

text \<open>The end of \<open>set_wifi_cfg\<close>: \<open>esp_wifi_start\<close> and, if asked for, \<open>esp_wifi_connect\<close>.\<close>

definition wifi_start_connect :: "set_env \<Rightarrow> wifi_cfg \<Rightarrow> world \<Rightarrow> esp_err_t \<times> world" where
  "wifi_start_connect se cfg w =
    (let w = log_calls [Esp_wifi_start] w in
     if sta_connect cfg \<and> (mode cfg = WIFI_MODE_STA \<or> mode cfg = WIFI_MODE_APSTA)
     then (connect_r se, log_calls [Esp_wifi_connect] w)
     else (start_r se, w))"

text \<open>
  \<open>set_wifi_cfg\<close>: returns the result code, the contents of \<open>*cfg\<close> on return (the
  function writes \<open>max_connection\<close> through the pointer, after it has copied \<open>*cfg\<close> to
  \<open>cfg_state.current\<close>) and the world.  The result is the one of the last driver call;
  only a failing \<open>tcpip_adapter_set_dns_info\<close> returns early.
\<close>

definition set_wifi_cfg :: "platform \<Rightarrow> set_env \<Rightarrow> wifi_cfg \<Rightarrow> world \<Rightarrow> esp_err_t \<times> wifi_cfg \<times> world" where
  "set_wifi_cfg P se cfg w =
    (let w = w\<lparr>current := cfg\<rparr>;
         w = log_calls [Esp_wifi_restore, Esp_wifi_set_mode (mode cfg)] w;
         ap_bearing = (mode cfg = WIFI_MODE_APSTA \<or> mode cfg = WIFI_MODE_AP);
         cfg = (if ap_bearing then cfg\<lparr>ap := set_max_connection P (ap cfg)\<rparr> else cfg);
         w = (if ap_bearing then log_calls [Esp_wifi_set_config_ap (ap cfg)] w else w)
     in
       if mode cfg = WIFI_MODE_APSTA \<or> mode cfg = WIFI_MODE_STA then
         let w = log_calls [Esp_wifi_set_config_sta (sta cfg)] w in
         if sta_static cfg then
           let w = log_calls [Tcpip_adapter_dhcpc_stop] w in
           case set_dns_loop P (set_dns_info_r se) (sta_dns_info cfg)
                  [0 ..< TCPIP_ADAPTER_DNS_MAX P] of
             (cs, Some e) \<Rightarrow> (e, cfg, log_calls cs w)
           | (cs, None) \<Rightarrow>
               (case wifi_start_connect se cfg (log_calls cs w) of (r, w) \<Rightarrow> (r, cfg, w))
         else
           (case wifi_start_connect se cfg (log_calls [Tcpip_adapter_dhcpc_start] w) of
              (r, w) \<Rightarrow> (r, cfg, w))
       else
         (case wifi_start_connect se cfg w of (r, w) \<Rightarrow> (r, cfg, w)))"

text \<open>
  The contents of \<open>*cfg\<close> when \<open>set_wifi_cfg\<close> returns: for an AP-bearing mode
  \<open>ap.max_connection\<close> has been overwritten.
\<close>

definition applied_cfg :: "platform \<Rightarrow> wifi_cfg \<Rightarrow> wifi_cfg" where
  "applied_cfg P cfg =
     (if mode cfg = WIFI_MODE_APSTA \<or> mode cfg = WIFI_MODE_AP
      then cfg\<lparr>ap := set_max_connection P (ap cfg)\<rparr> else cfg)"

text \<open>
  The driver calls of \<open>set_wifi_cfg\<close> for \<open>cfg\<close> whose results it assigns to \<open>result\<close>
  all answer \<open>ESP_OK\<close>.
\<close>

definition driver_calls_ok :: "platform \<Rightarrow> set_env \<Rightarrow> wifi_cfg \<Rightarrow> bool" where
  "driver_calls_ok P se cfg \<longleftrightarrow>
     restore_r se = ESP_OK \<and> set_mode_r se = ESP_OK \<and>
     (mode cfg = WIFI_MODE_APSTA \<or> mode cfg = WIFI_MODE_AP \<longrightarrow> set_config_ap_r se = ESP_OK) \<and>
     (mode cfg = WIFI_MODE_APSTA \<or> mode cfg = WIFI_MODE_STA \<longrightarrow>
        set_config_sta_r se = ESP_OK \<and>
        (sta_static cfg \<longrightarrow>
           (\<forall>idx \<in> set [0 ..< TCPIP_ADAPTER_DNS_MAX P].
              \<not> ip_addr_isany_val P (dns_entry P (sta_dns_info cfg) idx)
                \<longrightarrow> set_dns_info_r se idx = ESP_OK))) \<and>
     start_r se = ESP_OK \<and>
     (sta_connect cfg \<and> (mode cfg = WIFI_MODE_STA \<or> mode cfg = WIFI_MODE_APSTA)
        \<longrightarrow> connect_r se = ESP_OK)"

text \<open>The loop of \<open>get_wifi_cfg\<close> over the DNS servers.\<close>

fun get_dns_loop :: "platform \<Rightarrow> (nat \<Rightarrow> esp_err_t \<times> bytes) \<Rightarrow> bytes \<Rightarrow> nat list \<Rightarrow> esp_err_t \<times> bytes" where
  "get_dns_loop P g dns [] = (ESP_OK, dns)"
| "get_dns_loop P g dns (idx # rest) =
     (case g idx of (r, e) \<Rightarrow>
        if r \<noteq> ESP_OK then (r, dns)
        else get_dns_loop P g (set_dns_entry P dns idx e) rest)"

text \<open>\<open>get_wifi_cfg\<close>: returns the result code and the contents of \<open>*cfg\<close> on return.\<close>

definition get_wifi_cfg :: "platform \<Rightarrow> get_env \<Rightarrow> world \<Rightarrow> esp_err_t \<times> wifi_cfg" where
  "get_wifi_cfg P ge w =
    (let cfg = (zero_cfg P)\<lparr>sta_connect := sta_connected w\<rparr> in
     if fst (get_mode_r ge) \<noteq> ESP_OK then (fst (get_mode_r ge), cfg) else
     let cfg = cfg\<lparr>mode := snd (get_mode_r ge)\<rparr> in
     if fst (get_config_sta_r ge) \<noteq> ESP_OK then (fst (get_config_sta_r ge), cfg) else
     let cfg = cfg\<lparr>sta := snd (get_config_sta_r ge)\<rparr> in
     if fst (dhcpc_get_status_r ge) \<noteq> ESP_OK then (fst (dhcpc_get_status_r ge), cfg) else
     case (if snd (dhcpc_get_status_r ge) = TCPIP_ADAPTER_DHCP_STOPPED
           then (case get_dns_loop P (get_dns_info_r ge) (sta_dns_info cfg)
                        [0 ..< TCPIP_ADAPTER_DNS_MAX P] of
                   (r, dns) \<Rightarrow> (r, cfg\<lparr>sta_static := True, sta_dns_info := dns\<rparr>))
           else (ESP_OK, cfg))
     of (r, cfg) \<Rightarrow>
       if r \<noteq> ESP_OK then (r, cfg) else
       if fst (get_config_ap_r ge) \<noteq> ESP_OK then (fst (get_config_ap_r ge), cfg) else
       (ESP_OK, cfg\<lparr>ap := snd (get_config_ap_r ge)\<rparr>))"

section \<open>The configuration state machine\<close>

text \<open>
  One function per \<open>case\<close> of the \<open>switch\<close> in \<open>handle_wifi\<close>.  Each returns the world,
  the value of \<open>delay\<close>, and whether the case left through \<open>goto on_exit\<close> (which skips
  the scan handling after the \<open>switch\<close>).
\<close>

definition step_wps_start :: "platform \<Rightarrow> env \<Rightarrow> TickType_t \<Rightarrow> world \<Rightarrow> world \<times> TickType_t \<times> bool" where
  "step_wps_start P e now w =
    (case get_wifi_cfg P (e_get e) w of (r, cfg) \<Rightarrow>
     let w = w\<lparr>new := cfg\<rparr> in
     if r \<noteq> ESP_OK then (w\<lparr>state := wmngr_state_fallback\<rparr>, CFG_DELAY P, True) else
     let w = w\<lparr>new := (new w)\<lparr>sta := zeroes (SIZEOF_WIFI_CONFIG P),
                              mode := WIFI_MODE_APSTA, sta_connect := False\<rparr>\<rparr> in
     case set_wifi_cfg P (e_set e) (new w) w of (r, cfg, w) \<Rightarrow>
     let w = w\<lparr>new := cfg\<rparr> in
     if r \<noteq> ESP_OK then (w\<lparr>state := wmngr_state_fallback\<rparr>, CFG_DELAY P, True) else
     let w = log_calls [Esp_wifi_wps_enable] (xEventGroupClearBits BITS_WPS w) in
     if wps_enable_r e \<noteq> ESP_OK then (w\<lparr>state := wmngr_state_fallback\<rparr>, CFG_DELAY P, True) else
     let w = log_calls [Esp_wifi_wps_start] w in
     if wps_start_r e \<noteq> ESP_OK then (w\<lparr>state := wmngr_state_fallback\<rparr>, CFG_DELAY P, True) else
     (w\<lparr>cfg_timestamp := now, state := wmngr_state_wps_active\<rparr>, CFG_TICKS P, False))"

definition step_wps_active :: "platform \<Rightarrow> env \<Rightarrow> EventBits_t \<Rightarrow> TickType_t \<Rightarrow> world \<Rightarrow> world \<times> TickType_t \<times> bool" where
  "step_wps_active P e events now w =
    (if events AND BIT_WPS_SUCCESS \<noteq> 0 then
       let w = log_calls [Esp_wifi_wps_disable] w;
           cfg = snd (get_wifi_cfg P (e_get e) w)
       in (w\<lparr>new := cfg\<lparr>mode := WIFI_MODE_APSTA, sta_connect := True\<rparr>,
              state := wmngr_state_update\<rparr>, CFG_DELAY P, False)
     else if time_after now (cfg_timestamp w + CFG_TIMEOUT P) \<or> events AND BIT_WPS_FAILED \<noteq> 0 then
       ((log_calls [Esp_wifi_wps_disable] w)\<lparr>state := wmngr_state_fallback\<rparr>, CFG_DELAY P, False)
     else (w, CFG_TICKS P, False))"

definition step_update :: "platform \<Rightarrow> env \<Rightarrow> TickType_t \<Rightarrow> world \<Rightarrow> world \<times> TickType_t \<times> bool" where
  "step_update P e now w =
    (let w = log_calls [Esp_wifi_scan_stop, Esp_wifi_disconnect] w in
     case set_wifi_cfg P (e_set e) (new w) w of (r, cfg, w) \<Rightarrow>
     let w = w\<lparr>new := cfg\<rparr> in
     if r \<noteq> ESP_OK then (w\<lparr>state := wmngr_state_fallback\<rparr>, CFG_DELAY P, True)
     else if mode (new w) = WIFI_MODE_AP \<or> \<not> sta_connect (new w)
     then (w\<lparr>state := wmngr_state_idle\<rparr>, 0, False)
     else (w\<lparr>cfg_timestamp := now, state := wmngr_state_connecting\<rparr>, CFG_TICKS P, False))"

definition step_connecting :: "platform \<Rightarrow> env \<Rightarrow> bool \<Rightarrow> TickType_t \<Rightarrow> world \<Rightarrow> world \<times> TickType_t \<times> bool" where
  "step_connecting P e connected now w =
    (if connected then
       let w = w\<lparr>state := wmngr_state_connected\<rparr> in
       (w\<lparr>nvs := snd (save_config P (e_nvs e) (new w) (nvs w))\<rparr>, 0, False)
     else if time_after now (cfg_timestamp w + CFG_TIMEOUT P) then
       (w\<lparr>state := wmngr_state_fallback\<rparr>, CFG_DELAY P, False)
     else (w, CFG_TICKS P, False))"

definition step_fallback :: "platform \<Rightarrow> env \<Rightarrow> world \<Rightarrow> world \<times> TickType_t \<times> bool" where
  "step_fallback P e w =
    (let w = log_calls [Esp_wifi_disconnect] w in
     case set_wifi_cfg P (e_set e) (saved w) w of (r, cfg, w) \<Rightarrow>
     (w\<lparr>saved := cfg, state := wmngr_state_failed\<rparr>, 0, False))"

definition step_connected :: "platform \<Rightarrow> bool \<Rightarrow> world \<Rightarrow> world \<times> TickType_t \<times> bool" where
  "step_connected P connected w =
    (if \<not> connected then (w\<lparr>state := wmngr_state_update\<rparr>, CFG_DELAY P, False)
     else (w, 0, False))"

text \<open>The \<open>switch\<close>.\<close>

definition dispatch :: "platform \<Rightarrow> env \<Rightarrow> bool \<Rightarrow> EventBits_t \<Rightarrow> TickType_t \<Rightarrow> world \<Rightarrow> world \<times> TickType_t \<times> bool" where
  "dispatch P e connected events now w =
    (case state w of
       wmngr_state_wps_start \<Rightarrow> step_wps_start P e now w
     | wmngr_state_wps_active \<Rightarrow> step_wps_active P e events now w
     | wmngr_state_update \<Rightarrow> step_update P e now w
     | wmngr_state_connecting \<Rightarrow> step_connecting P e connected now w
     | wmngr_state_disconnecting \<Rightarrow> (w, 0, False)
     | wmngr_state_fallback \<Rightarrow> step_fallback P e w
     | wmngr_state_connected \<Rightarrow> step_connected P connected w
     | wmngr_state_idle \<Rightarrow> (w, 0, False)
     | wmngr_state_failed \<Rightarrow> (w, 0, False))"

text \<open>The scan handling after the \<open>switch\<close>, for a stable state.\<close>

definition scan_service :: "platform \<Rightarrow> env \<Rightarrow> EventBits_t \<Rightarrow> TickType_t \<Rightarrow> world \<Rightarrow> world \<times> TickType_t" where
  "scan_service P e events delay w =
    (if state_val (state w) \<le> state_val wmngr_state_idle then
       let w = (if events AND BIT_SCAN_START \<noteq> 0 then wifi_scan_start (e_scan e) w
                else if events AND BIT_SCAN_DONE \<noteq> 0 then wifi_scan_done P (e_scan e) w
                else w)
       in if wifi_events w AND (BIT_SCAN_START OR BIT_SCAN_DONE) \<noteq> 0
          then (w, CFG_DELAY P) else (w, delay)
     else (w, delay))"

text \<open>
  The label \<open>on_exit\<close> of \<open>handle_wifi\<close>: the lock is given back and, when
  \<open>delay > 0\<close>, the timer is re-armed; if that fails the state becomes \<open>failed\<close>.
\<close>

definition on_exit :: "env \<Rightarrow> world \<times> TickType_t \<Rightarrow> world" where
  "on_exit e wd =
    (case wd of (w, delay) \<Rightarrow>
       if delay > 0 then
         let w = log_calls [XTimerChangePeriod delay] w in
         if timer_pass e then w else w\<lparr>state := wmngr_state_failed\<rparr>
       else w)"

text \<open>
  \<open>handle_wifi\<close>: one step of the state machine.  Without the lock it only re-arms the
  timer and returns; a failing \<open>esp_wifi_get_mode\<close> sets \<open>failed\<close> and jumps to
  \<open>on_exit\<close>; otherwise the \<open>switch\<close>, then the scan handling unless the case jumped
  to \<open>on_exit\<close>.
\<close>

definition handle_wifi :: "platform \<Rightarrow> env \<Rightarrow> world \<Rightarrow> world" where
  "handle_wifi P e w =
    (if \<not> lock_taken e then log_calls [XTimerChangePeriod (CFG_DELAY P)] w
     else
       let connected = sta_connected w;
           events = wifi_events w;
           now = tick_count e
       in
       if fst (wifi_get_mode_r e) \<noteq> ESP_OK then on_exit e (w\<lparr>state := wmngr_state_failed\<rparr>, 0)
       else
         case dispatch P e connected events now w of
           (w, delay, goto_on_exit) \<Rightarrow>
             if goto_on_exit then on_exit e (w, delay)
             else on_exit e (scan_service P e events delay w))"

section \<open>Event ingest\<close>

datatype wifi_event_t =
    WIFI_EVENT_SCAN_DONE "32 word"
  | WIFI_EVENT_STA_START
  | WIFI_EVENT_STA_STOP
  | WIFI_EVENT_STA_CONNECTED
  | WIFI_EVENT_STA_DISCONNECTED
  | WIFI_EVENT_AP_START
  | WIFI_EVENT_AP_STOP
  | WIFI_EVENT_STA_WPS_ER_SUCCESS
  | WIFI_EVENT_STA_WPS_ER_FAILED
  | WIFI_EVENT_STA_WPS_ER_TIMEOUT
  | WIFI_EVENT_STA_WPS_ER_PIN
  | WIFI_EVENT_OTHER

datatype ip_event_t = IP_EVENT_STA_GOT_IP | IP_EVENT_STA_LOST_IP | IP_EVENT_OTHER

datatype event = WIFI_EVENT wifi_event_t | IP_EVENT ip_event_t | OTHER_BASE

definition wifi_event_bits :: "wifi_event_t \<Rightarrow> world \<Rightarrow> world" where
  "wifi_event_bits ev w =
    (case ev of
       WIFI_EVENT_SCAN_DONE st \<Rightarrow>
         xEventGroupClearBits BIT_SCAN_START
           (if st = 0 then xEventGroupSetBits BIT_SCAN_DONE w else w)
     | WIFI_EVENT_STA_START \<Rightarrow> xEventGroupSetBits BIT_STA_START w
     | WIFI_EVENT_STA_STOP \<Rightarrow> xEventGroupClearBits BIT_STA_START w
     | WIFI_EVENT_STA_CONNECTED \<Rightarrow> xEventGroupSetBits BIT_STA_CONNECTED w
     | WIFI_EVENT_STA_DISCONNECTED \<Rightarrow> xEventGroupClearBits BIT_STA_CONNECTED w
     | WIFI_EVENT_AP_START \<Rightarrow> xEventGroupSetBits BIT_AP_START w
     | WIFI_EVENT_AP_STOP \<Rightarrow> xEventGroupClearBits BIT_AP_START w
     | WIFI_EVENT_STA_WPS_ER_SUCCESS \<Rightarrow> xEventGroupSetBits BIT_WPS_SUCCESS w
     | WIFI_EVENT_STA_WPS_ER_FAILED \<Rightarrow> xEventGroupSetBits BIT_WPS_FAILED w
     | WIFI_EVENT_STA_WPS_ER_TIMEOUT \<Rightarrow> xEventGroupSetBits BIT_WPS_FAILED w
     | WIFI_EVENT_STA_WPS_ER_PIN \<Rightarrow> xEventGroupSetBits BIT_WPS_FAILED w
     | WIFI_EVENT_OTHER \<Rightarrow> w)"

definition ip_event_bits :: "ip_event_t \<Rightarrow> world \<Rightarrow> world" where
  "ip_event_bits ev w =
    (case ev of
       IP_EVENT_STA_GOT_IP \<Rightarrow> xEventGroupSetBits BIT_STA_GOT_IP w
     | IP_EVENT_STA_LOST_IP \<Rightarrow> xEventGroupClearBits BIT_STA_GOT_IP w
     | IP_EVENT_OTHER \<Rightarrow> w)"

text \<open>\<open>event_handler\<close>; the first argument is the result of \<open>xTimerChangePeriod\<close>.\<close>

definition event_handler :: "platform \<Rightarrow> bool \<Rightarrow> event \<Rightarrow> world \<Rightarrow> world" where
  "event_handler P timer_ok ev w =
    (case ev of
       OTHER_BASE \<Rightarrow> w
     | _ \<Rightarrow>
       let old = wifi_events w;
           w = (case ev of WIFI_EVENT x \<Rightarrow> wifi_event_bits x w
                         | IP_EVENT x \<Rightarrow> ip_event_bits x w
                         | OTHER_BASE \<Rightarrow> w)
       in if old \<noteq> wifi_events w then
            if CONFIG_WMNGR_TASK P then xEventGroupSetBits BIT_TRIGGER w
            else
              let w = log_calls [XTimerChangePeriod (CFG_DELAY P)] w in
              if timer_ok then w else w\<lparr>state := wmngr_state_failed\<rparr>
          else w)"

section \<open>Public operations\<close>

text \<open>\<open>memcmp(a, b, n) != 0\<close>.\<close>

definition memcmp_ne :: "bytes \<Rightarrow> bytes \<Rightarrow> nat \<Rightarrow> bool" where
  "memcmp_ne a b n \<longleftrightarrow> take n a \<noteq> take n b"

text \<open>
  The "naive checks" of \<open>esp_wmngr_set_cfg\<close> that compute \<open>update\<close>: \<open>n\<close> is
  \<open>cfg_state.new\<close> (a copy of the caller's \<open>*new\<close>, so \<open>new->mode\<close> is its mode) and
  \<open>s\<close> is \<open>cfg_state.saved\<close>.
\<close>

definition config_changed :: "platform \<Rightarrow> wifi_cfg \<Rightarrow> wifi_cfg \<Rightarrow> bool" where
  "config_changed P n s \<longleftrightarrow>
     mode n \<noteq> mode s
     \<or> ((mode n = WIFI_MODE_AP \<or> mode n = WIFI_MODE_APSTA)
         \<and> memcmp_ne (ap n) (ap s) (SIZEOF_WIFI_CONFIG P))
     \<or> ((mode n = WIFI_MODE_STA \<or> mode n = WIFI_MODE_APSTA)
         \<and> memcmp_ne (sta n) (sta s) (SIZEOF_WIFI_CONFIG P))"

text \<open>
  \<open>esp_wmngr_set_cfg\<close>.  Of the environment it uses whether the lock is obtained within
  \<open>CFG_DELAY\<close>, the answers to \<open>get_wifi_cfg\<close> and the result of \<open>xTimerChangePeriod\<close>.
\<close>

definition esp_wmngr_set_cfg :: "platform \<Rightarrow> env \<Rightarrow> wifi_cfg \<Rightarrow> world \<Rightarrow> esp_err_t \<times> world" where
  "esp_wmngr_set_cfg P e X w =
    (if \<not> lock_taken e then (ESP_ERR_TIMEOUT, w)
     else if state_val (state w) > state_val wmngr_state_idle then (ESP_ERR_INVALID_STATE, w)
     else
       case get_wifi_cfg P (e_get e) w of (result, cfg) \<Rightarrow>
       let w = w\<lparr>saved := cfg\<rparr> in
       if result \<noteq> ESP_OK then (result, w)
       else
         let w = (if \<not> sta_connected w
                  then w\<lparr>saved := (saved w)\<lparr>sta := zeroes (SIZEOF_WIFI_CONFIG P)\<rparr>\<rparr>
                  else w);
             w = w\<lparr>new := X\<lparr>is_default := False\<rparr>\<rparr>;
             update = config_changed P (new w) (saved w)
         in if update then
              let w = log_calls [XTimerChangePeriod (CFG_DELAY P)]
                        (w\<lparr>state := wmngr_state_update\<rparr>)
              in if \<not> timer_pass e then (ESP_ERR_TIMEOUT, w\<lparr>state := wmngr_state_failed\<rparr>)
                 else (ESP_OK, w)
            else (ESP_OK, w))"

text \<open>
  \<open>esp_wmngr_get_cfg\<close>: the second argument is the caller's buffer before the call; the
  result holds the buffer after the call.  The world is not changed.
\<close>

definition esp_wmngr_get_cfg :: "env \<Rightarrow> wifi_cfg \<Rightarrow> world \<Rightarrow> esp_err_t \<times> wifi_cfg" where
  "esp_wmngr_get_cfg e cfg w =
    (if \<not> lock_taken e then (ESP_ERR_TIMEOUT, cfg)
     else if state_val (state w) > state_val wmngr_state_idle then (ESP_ERR_INVALID_STATE, cfg)
     else (ESP_OK, current w))"

text \<open>\<open>esp_wmngr_start_wps\<close>.\<close>

definition esp_wmngr_start_wps :: "platform \<Rightarrow> env \<Rightarrow> world \<Rightarrow> esp_err_t \<times> world" where
  "esp_wmngr_start_wps P e w =
    (if \<not> lock_taken e then (ESP_ERR_TIMEOUT, w)
     else if state_val (state w) > state_val wmngr_state_idle then (ESP_ERR_INVALID_STATE, w)
     else
       case get_wifi_cfg P (e_get e) w of (result, cfg) \<Rightarrow>
       if result \<noteq> ESP_OK then (result, w)
       else
         let w = w\<lparr>saved := cfg, state := wmngr_state_wps_start\<rparr>;
             w = log_calls [XTimerChangePeriod (CFG_DELAY P)] w
         in if \<not> timer_pass e then (result, w\<lparr>state := wmngr_state_failed\<rparr>)
            else (result, w))"

text \<open>
  \<open>set_connect\<close>, behind \<open>esp_wmngr_connect\<close> and \<open>esp_wmngr_disconnect\<close>: it calls
  \<open>esp_wmngr_get_cfg\<close> and \<open>esp_wmngr_set_cfg\<close>, each of which takes the lock on its
  own (environments \<open>e1\<close> and \<open>e2\<close>).  The local buffer is read only after a successful
  \<open>esp_wmngr_get_cfg\<close>, so its initial contents do not matter.
\<close>

definition set_connect :: "platform \<Rightarrow> env \<Rightarrow> env \<Rightarrow> bool \<Rightarrow> world \<Rightarrow> esp_err_t \<times> world" where
  "set_connect P e1 e2 connect w =
    (case esp_wmngr_get_cfg e1 (zero_cfg P) w of (result, cfg) \<Rightarrow>
     if result \<noteq> ESP_OK then (result, w)
     else if mode cfg \<noteq> WIFI_MODE_APSTA \<and> mode cfg \<noteq> WIFI_MODE_STA
     then (ESP_ERR_INVALID_STATE, w)
     else esp_wmngr_set_cfg P e2 (cfg\<lparr>sta_connect := connect\<rparr>) w)"

definition esp_wmngr_connect :: "platform \<Rightarrow> env \<Rightarrow> env \<Rightarrow> world \<Rightarrow> esp_err_t \<times> world" where
  "esp_wmngr_connect P e1 e2 w = set_connect P e1 e2 True w"

definition esp_wmngr_disconnect :: "platform \<Rightarrow> env \<Rightarrow> env \<Rightarrow> world \<Rightarrow> esp_err_t \<times> world" where
  "esp_wmngr_disconnect P e1 e2 w = set_connect P e1 e2 False w"

text \<open>\<open>esp_wmngr_start_scan\<close>; the second argument is the result of \<open>xTimerChangePeriod\<close>.\<close>

definition esp_wmngr_start_scan :: "platform \<Rightarrow> bool \<Rightarrow> world \<Rightarrow> esp_err_t \<times> world" where
  "esp_wmngr_start_scan P timer_ok w =
    (let w = xEventGroupSetBits (BIT_SCAN_START OR BIT_TRIGGER) w in
     if CONFIG_WMNGR_TASK P then (ESP_OK, w)
     else
       let w = log_calls [XTimerChangePeriod (CFG_DELAY P)] w in
       if timer_ok then (ESP_OK, w) else (ESP_FAIL, w\<lparr>state := wmngr_state_failed\<rparr>))"

definition esp_wmngr_get_state :: "world \<Rightarrow> wmngr_state" where
  "esp_wmngr_get_state w = state w"

definition esp_wmngr_is_connected :: "world \<Rightarrow> bool" where
  "esp_wmngr_is_connected w = sta_connected w"

definition esp_wmngr_nvs_valid :: "platform \<Rightarrow> esp_err_t \<Rightarrow> world \<Rightarrow> bool" where
  "esp_wmngr_nvs_valid P open_r w \<longleftrightarrow> fst (get_saved_config P open_r (nvs w)) = ESP_OK"

section \<open>Runs of the manager\<close>

text \<open>
  What can happen to the manager, one operation at a time: a step of the state machine
  (\<open>handle_wifi\<close>), an event delivered by the driver (\<open>event_handler\<close>), or a call of
  a public operation that writes to the manager's state.  \<open>esp_wmngr_get_cfg\<close>,
  \<open>esp_wmngr_get_state\<close> and \<open>esp_wmngr_is_connected\<close> only read.
\<close>

datatype action =
    Timer_step env
  | Driver_event bool event
  | Call_set_cfg env wifi_cfg
  | Call_start_wps env
  | Call_connect env env
  | Call_disconnect env env
  | Call_start_scan bool
  | Call_get_scan bool
  | Call_put_scan nat

fun perform :: "platform \<Rightarrow> action \<Rightarrow> world \<Rightarrow> world" where
  "perform P (Timer_step e) w = handle_wifi P e w"
| "perform P (Driver_event timer_ok ev) w = event_handler P timer_ok ev w"
| "perform P (Call_set_cfg e X) w = snd (esp_wmngr_set_cfg P e X w)"
| "perform P (Call_start_wps e) w = snd (esp_wmngr_start_wps P e w)"
| "perform P (Call_connect e1 e2) w = snd (esp_wmngr_connect P e1 e2 w)"
| "perform P (Call_disconnect e1 e2) w = snd (esp_wmngr_disconnect P e1 e2 w)"
| "perform P (Call_start_scan timer_ok) w = snd (esp_wmngr_start_scan P timer_ok w)"
| "perform P (Call_get_scan lock_ok) w = snd (esp_wmngr_get_scan lock_ok w)"
| "perform P (Call_put_scan a) w = esp_wmngr_put_scan a w"

text \<open>A run performs its operations in order.\<close>

fun run_wmngr :: "platform \<Rightarrow> action list \<Rightarrow> world \<Rightarrow> world" where
  "run_wmngr P [] w = w"
| "run_wmngr P (a # as) w = run_wmngr P as (perform P a w)"

text \<open>The state is \<open>update\<close> or \<open>connecting\<close> before each operation of the run.\<close>

fun in_progress :: "platform \<Rightarrow> action list \<Rightarrow> world \<Rightarrow> bool" where
  "in_progress P [] w = True"
| "in_progress P (a # as) w =
     ((state w = wmngr_state_update \<or> state w = wmngr_state_connecting)
      \<and> in_progress P as (perform P a w))"

text \<open>
  An update requested with \<open>X0\<close> is under way: the state is \<open>update\<close> and \<open>new\<close> holds
  \<open>X0\<close>, or the state is \<open>connecting\<close> and \<open>new\<close> holds \<open>X0\<close> as \<open>set_wifi_cfg\<close> left it.
\<close>

definition pend :: "platform \<Rightarrow> wifi_cfg \<Rightarrow> world \<Rightarrow> bool" where
  "pend P X0 w \<longleftrightarrow>
     state w = wmngr_state_update \<and> new w = X0
     \<or> state w = wmngr_state_connecting \<and> new w = applied_cfg P X0"

section \<open>Readers of scan snapshots\<close>

text \<open>
  The operations on scan snapshots, as they interleave: a reader borrows the current
  snapshot (\<open>esp_wmngr_get_scan\<close>; the flag tells whether it obtained the lock), a reader
  gives back a snapshot it holds (\<open>esp_wmngr_put_scan\<close>), or the state machine
  collects a finished scan (\<open>wifi_scan_done\<close>).  Reference counts are atomic and the
  pointer swap happens under the lock, so each operation is one step.  Next to the
  world the run keeps the list of the references that readers hold.
\<close>

datatype scan_event = Reader_get bool | Reader_put nat | Scan_done scan_env

fun scan_step :: "platform \<Rightarrow> scan_event \<Rightarrow> world \<times> nat list \<Rightarrow> world \<times> nat list" where
  "scan_step P (Reader_get lock_ok) (w, held) =
     (case esp_wmngr_get_scan lock_ok w of
        (None, w') \<Rightarrow> (w', held)
      | (Some a, w') \<Rightarrow> (w', a # held))"
| "scan_step P (Reader_put a) (w, held) = (esp_wmngr_put_scan a w, remove1 a held)"
| "scan_step P (Scan_done sc) (w, held) = (wifi_scan_done P sc w, held)"

fun run_scan :: "platform \<Rightarrow> scan_event list \<Rightarrow> world \<times> nat list \<Rightarrow> world \<times> nat list" where
  "run_scan P [] s = s"
| "run_scan P (ev # evs) s = run_scan P evs (scan_step P ev s)"

text \<open>
  Readers follow the protocol: they give back only what they hold, and they borrow only
  while fewer than \<open>2^31 - 2\<close> references are held, so that the count, which includes the
  global pointer, stays within an \<open>atomic_int\<close>.
\<close>

fun readers_ok :: "platform \<Rightarrow> scan_event list \<Rightarrow> world \<times> nat list \<Rightarrow> bool" where
  "readers_ok P [] s = True"
| "readers_ok P (Reader_put a # evs) s =
     (a \<in> set (snd s) \<and> readers_ok P evs (scan_step P (Reader_put a) s))"
| "readers_ok P (Reader_get lock_ok # evs) s =
     (length (snd s) + 2 < 2 ^ 31 \<and> readers_ok P evs (scan_step P (Reader_get lock_ok) s))"
| "readers_ok P (Scan_done sc # evs) s = readers_ok P evs (scan_step P (Scan_done sc) s)"

text \<open>
  The invariant of the snapshot heap.  \<open>hs\<close> are the references held by readers, \<open>tmp\<close>
  those held in local variables of a running \<open>wifi_scan_done\<close>: the count of every
  live snapshot is the number of its holders (the global pointer counts as one), is at
  least one and fits an \<open>atomic_int\<close>; what the global pointer or a reader refers to is
  live and has a record array; every record array of a live snapshot is live and
  belongs to that snapshot only; addresses handed out so far are below \<open>next_addr\<close>.
\<close>

definition snap_inv :: "world \<Rightarrow> nat list \<Rightarrow> nat list \<Rightarrow> bool" where
  "snap_inv w hs tmp \<longleftrightarrow>
     \<not> fault w \<and>
     (\<forall>a r. heap w a = Some r \<longrightarrow>
        ref_cnt r = int (count_list (hs @ tmp) a) + (if scan_ref w = Some a then 1 else 0)
        \<and> 1 \<le> ref_cnt r \<and> a < next_addr w) \<and>
     (\<forall>a. scan_ref w = Some a \<or> a \<in> set hs \<longrightarrow>
        (\<exists>r p. heap w a = Some r \<and> ap_records (data r) = Some p)) \<and>
     (\<forall>a\<in>set tmp. heap w a \<noteq> None) \<and>
     (\<forall>a r p. heap w a = Some r \<longrightarrow> ap_records (data r) = Some p \<longrightarrow> arrays w p \<noteq> None) \<and>
     (\<forall>a b ra rb p. heap w a = Some ra \<longrightarrow> heap w b = Some rb \<longrightarrow>
        ap_records (data ra) = Some p \<longrightarrow> ap_records (data rb) = Some p \<longrightarrow> a = b) \<and>
     (\<forall>p. arrays w p \<noteq> None \<longrightarrow> p < next_addr w) \<and>
     (\<forall>a r. heap w a = Some r \<longrightarrow> ref_cnt r < 2 ^ 31)"

text \<open>The members of \<open>cfg_state\<close> that the scan functions never write, and the store.\<close>

definition cfg_part :: "world \<Rightarrow> TickType_t \<times> wmngr_state \<times> wifi_cfg \<times> wifi_cfg \<times> wifi_cfg \<times> nvs_store" where
  "cfg_part w = (cfg_timestamp w, state w, saved w, current w, new w, nvs w)"

section \<open>Concrete instances\<close>

text \<open>
  An ESP32 build (esp-idf 4.0 headers, lwIP without IPv6, 100 Hz tick, timer-driven
  dispatch) and a few configurations and store responses, used where a statement is
  evaluated at a concrete input.
\<close>

definition esp32_platform :: platform where
  "esp32_platform = \<lparr> SIZEOF_WIFI_CONFIG = 124, OFFSETOF_MAX_CONNECTION = 105,
     SIZEOF_IP_INFO = 12, SIZEOF_DNS_INFO = 4, SIZEOF_AP_RECORD = 80,
     TCPIP_ADAPTER_DNS_MAX = 3,
     ip_addr_isany_val = (\<lambda>bs. bs = zeroes 4), portTICK_PERIOD_MS = 10,
     CONFIG_WMNGR_TASK = False \<rparr>"

definition nvs_all_ok :: nvs_env where
  "nvs_all_ok = \<lparr> nvs_open_r = ESP_OK, nvs_erase_all_r = ESP_OK, nvs_commit_r = ESP_OK,
     nvs_set_r = (\<lambda>k. ESP_OK), nvs_erase_all_cleanup_r = ESP_OK \<rparr>"

definition nvs_open_fails :: nvs_env where
  "nvs_open_fails = nvs_all_ok\<lparr> nvs_open_r := ESP_FAIL \<rparr>"

definition nvs_second_write_fails :: nvs_env where
  "nvs_second_write_fails =
     nvs_all_ok\<lparr> nvs_set_r := (\<lambda>k. if k = ''sta_static'' then ESP_FAIL else ESP_OK) \<rparr>"

definition nvs_write_and_cleanup_fail :: nvs_env where
  "nvs_write_and_cleanup_fail = nvs_second_write_fails\<lparr> nvs_erase_all_cleanup_r := ESP_FAIL \<rparr>"

definition cfg_sta_home :: wifi_cfg where
  "cfg_sta_home = (zero_cfg esp32_platform)\<lparr> mode := WIFI_MODE_STA, sta_connect := True \<rparr>"

definition cfg_factory :: wifi_cfg where
  "cfg_factory = (zero_cfg esp32_platform)\<lparr> is_default := True, mode := WIFI_MODE_APSTA \<rparr>"

definition store_sta_home :: nvs_store where
  "store_sta_home = snd (save_config esp32_platform nvs_all_ok cfg_sta_home Map.empty)"

definition scan_env_ok :: scan_env where
  "scan_env_ok = \<lparr> scan_get_mode_r = (ESP_OK, WIFI_MODE_APSTA), scan_start_r = ESP_OK,
     scan_get_ap_num_r = (ESP_OK, 5), calloc_ref_ok = True, calloc_records_ok = True,
     scan_tick = 1000,
     scan_get_ap_records_r = (ESP_OK, 5, replicate 5 (zeroes 80)) \<rparr>"

text \<open>
  All collaborators answer \<open>ESP_OK\<close>; the radio reports mode APSTA, all-zero AP and
  station sections and a running DHCP client.
\<close>

definition env_ok :: env where
  "env_ok = \<lparr> lock_taken = True, timer_pass = True, tick_count = 5000,
     wifi_get_mode_r = (ESP_OK, WIFI_MODE_APSTA),
     e_get = \<lparr> get_mode_r = (ESP_OK, WIFI_MODE_APSTA),
               get_config_sta_r = (ESP_OK, zeroes 124),
               dhcpc_get_status_r = (ESP_OK, TCPIP_ADAPTER_DHCP_STARTED),
               get_dns_info_r = (\<lambda>idx. (ESP_OK, zeroes 4)),
               get_config_ap_r = (ESP_OK, zeroes 124) \<rparr>,
     e_set = \<lparr> restore_r = ESP_OK, set_mode_r = ESP_OK, set_config_ap_r = ESP_OK,
               set_config_sta_r = ESP_OK, set_dns_info_r = (\<lambda>idx. ESP_OK),
               start_r = ESP_OK, connect_r = ESP_OK \<rparr>,
     wps_enable_r = ESP_OK, wps_start_r = ESP_OK, wps_disable_r = ESP_OK,
     e_nvs = nvs_all_ok, e_scan = scan_env_ok \<rparr>"

definition env_get_mode_fails :: env where
  "env_get_mode_fails = env_ok\<lparr> wifi_get_mode_r := (ESP_FAIL, 0) \<rparr>"

definition env_no_lock :: env where
  "env_no_lock = env_ok\<lparr> lock_taken := False \<rparr>"

text \<open>The radio holds a station configuration for the network "home".\<close>

definition ssid_home :: bytes where
  "ssid_home = [104, 111, 109, 101] @ zeroes 120"

definition env_sta_configured :: env where
  "env_sta_configured =
     env_ok\<lparr> e_get := (e_get env_ok)\<lparr> get_config_sta_r := (ESP_OK, ssid_home) \<rparr> \<rparr>"

definition cfg_radio_home :: wifi_cfg where
  "cfg_radio_home = (zero_cfg esp32_platform)\<lparr> mode := WIFI_MODE_APSTA, sta := ssid_home \<rparr>"

text \<open>A freshly started manager in state \<open>idle\<close>, no event flag set, nothing stored.\<close>

definition world_idle :: world where
  "world_idle = \<lparr> cfg_timestamp = 0, state = wmngr_state_idle,
     saved = cfg_factory, current = cfg_factory, new = cfg_factory,
     scan_ref = None, wifi_events = 0, nvs = Map.empty,
     heap = Map.empty, arrays = Map.empty, next_addr = 0, fault = False, calls = [] \<rparr>"

text \<open>The manager about to fall back from \<open>cfg_sta_home\<close> to the factory configuration.\<close>

definition world_fallback :: world where
  "world_fallback = world_idle\<lparr> state := wmngr_state_fallback, current := cfg_sta_home,
     new := cfg_sta_home \<rparr>"

text \<open>The manager about to apply \<open>cfg_sta_home\<close>.\<close>

definition world_update :: world where
  "world_update = world_idle\<lparr> state := wmngr_state_update, new := cfg_sta_home \<rparr>"

definition world_connecting :: world where
  "world_connecting = world_idle\<lparr> state := wmngr_state_connecting, current := cfg_sta_home,
     new := cfg_sta_home \<rparr>"

definition env_save_fails :: env where
  "env_save_fails = env_ok\<lparr> e_nvs := nvs_second_write_fails \<rparr>"

text \<open>
  A run: \<open>esp_wmngr_set_cfg cfg_sta_home\<close> on the idle manager, the state-machine step
  that applies it, and the event that reports the station connected.
\<close>

definition run_set_cfg :: world where
  "run_set_cfg = snd (esp_wmngr_set_cfg esp32_platform env_ok cfg_sta_home world_idle)"

definition run_update :: world where
  "run_update = handle_wifi esp32_platform env_ok run_set_cfg"

definition run_sta_connected :: world where
  "run_sta_connected =
     event_handler esp32_platform True (WIFI_EVENT WIFI_EVENT_STA_CONNECTED) run_update"

text \<open>
  The three operations after \<open>run_set_cfg\<close>: the step that applies the configuration,
  the event that reports the station connected, and the step that finds it connected.
\<close>

definition connect_run :: "action list" where
  "connect_run = [Timer_step env_ok, Driver_event True (WIFI_EVENT WIFI_EVENT_STA_CONNECTED),
                  Timer_step env_ok]"

text \<open>The driver rejects the station configuration and accepts everything else.\<close>

definition env_sta_config_rejected :: env where
  "env_sta_config_rejected =
     env_ok\<lparr> e_set := (e_set env_ok)\<lparr> set_config_sta_r := ESP_FAIL \<rparr> \<rparr>"

text \<open>
  Scenario S4: a scan completes and a reader borrows its snapshot; a second scan
  completes and replaces it; a reader borrows the new one.
\<close>

definition scan_trace :: "scan_event list" where
  "scan_trace = [Scan_done scan_env_ok, Reader_get True, Scan_done scan_env_ok, Reader_get True]"

text \<open>The manager after its first collected scan: the snapshot is at address 0.\<close>

definition world_scanned :: world where
  "world_scanned = wifi_scan_done esp32_platform scan_env_ok world_idle"

text \<open>
  A scan completes and a reader borrows its snapshot; then \<open>esp_wmngr_put_scan\<close> is
  called twice for it, once more than it was borrowed.
\<close>

definition excess_put_trace :: "scan_event list" where
  "excess_put_trace = [Scan_done scan_env_ok, Reader_get True, Reader_put 0, Reader_put 0]"

text \<open>
  A scan completes and its snapshot is borrowed \<open>2^31 - 1\<close> times without a release in
  between.
\<close>

definition many_borrows :: "scan_event list" where
  "many_borrows = replicate 2147483646 (Reader_get True)"

definition overflow_trace :: "scan_event list" where
  "overflow_trace = Scan_done scan_env_ok # many_borrows @ [Reader_get True]"

section \<open>Event bits\<close>

lemma clear_then_test: "(x AND NOT b) AND b = (0 :: 32 word)"
  by (simp add: bit_eq_iff bit_simps)

lemma set_then_test: "(x OR b) AND b = (b :: 32 word)"
  by (auto simp add: bit_eq_iff bit_simps)

lemma disjoint_bits:
  fixes m :: "32 word"
  assumes "m AND b = 0"
  shows "\<not> (bit m n \<and> bit b n)"
proof -
  have "bit (m AND b) n = bit (0 :: 32 word) n" using assms by simp
  then show ?thesis by (simp add: bit_and_iff)
qed

lemma clear_other:
  fixes x :: "32 word"
  assumes "m AND b = 0"
  shows "(x AND NOT b) AND m = x AND m"
  using disjoint_bits [OF assms] by (auto simp add: bit_eq_iff bit_simps)

lemma set_other:
  fixes x :: "32 word"
  assumes "m AND b = 0"
  shows "(x OR b) AND m = x AND m"
  using disjoint_bits [OF assms] by (auto simp add: bit_eq_iff bit_simps)

lemma scan_mask_start_disjoint: "(BIT_SCAN_RUNNING OR BIT_SCAN_DONE) AND BIT_SCAN_START = 0"
  by (simp add: BIT_SCAN_START_def BIT_SCAN_RUNNING_def BIT_SCAN_DONE_def)

lemma start_running_disjoint: "BIT_SCAN_START AND BIT_SCAN_RUNNING = 0"
  by (simp add: BIT_SCAN_START_def BIT_SCAN_RUNNING_def)

lemma running_start_disjoint: "BIT_SCAN_RUNNING AND BIT_SCAN_START = 0"
  by (simp add: BIT_SCAN_START_def BIT_SCAN_RUNNING_def)

lemma start_bit_nonzero: "BIT_SCAN_START \<noteq> 0"
  by (simp add: BIT_SCAN_START_def)

lemma running_bit_nonzero: "BIT_SCAN_RUNNING \<noteq> 0"
  by (simp add: BIT_SCAN_RUNNING_def)

section \<open>What the scan functions leave alone\<close>

lemma free_scan_data_frame:
  "cfg_part (free_scan_data a w) = cfg_part w \<and> calls (free_scan_data a w) = calls w
   \<and> wifi_events (free_scan_data a w) = wifi_events w
   \<and> scan_ref (free_scan_data a w) = scan_ref w"
  by (simp add: free_scan_data_def cfg_part_def Let_def split: option.splits)

lemma kref_put_frame:
  "cfg_part (kref_put a w) = cfg_part w \<and> calls (kref_put a w) = calls w
   \<and> wifi_events (kref_put a w) = wifi_events w \<and> scan_ref (kref_put a w) = scan_ref w"
  using free_scan_data_frame
  by (simp add: kref_put_def cfg_part_def Let_def split: option.splits)

lemma kref_get_frame:
  "cfg_part (kref_get a w) = cfg_part w \<and> calls (kref_get a w) = calls w
   \<and> wifi_events (kref_get a w) = wifi_events w \<and> scan_ref (kref_get a w) = scan_ref w"
  by (simp add: kref_get_def cfg_part_def Let_def split: option.splits)

lemma calloc_scan_ref_frame:
  "cfg_part (snd (calloc_scan_ref w)) = cfg_part w \<and> calls (snd (calloc_scan_ref w)) = calls w"
  by (simp add: calloc_scan_ref_def cfg_part_def Let_def)

lemma calloc_ap_records_frame:
  "cfg_part (calloc_ap_records P n a w) = cfg_part w
   \<and> calls (calloc_ap_records P n a w) = calls w"
  by (simp add: calloc_ap_records_def cfg_part_def Let_def split: option.splits)

lemma fetch_ap_records_frame:
  "cfg_part (fetch_ap_records sc n a w) = cfg_part w
   \<and> calls (fetch_ap_records sc n a w) = calls w"
  by (simp add: fetch_ap_records_def cfg_part_def Let_def split: option.splits prod.splits)

lemma publish_scan_frame:
  "cfg_part (publish_scan a w) = cfg_part w \<and> calls (publish_scan a w) = calls w"
proof -
  have k: "cfg_part ((kref_get a w)\<lparr>scan_ref := x\<rparr>) = cfg_part w
           \<and> calls ((kref_get a w)\<lparr>scan_ref := x\<rparr>) = calls w" for x
    using kref_get_frame [of a w] by (simp add: cfg_part_def)
  show ?thesis
    using k kref_put_frame
    by (simp add: publish_scan_def esp_wmngr_put_scan_def Let_def split: option.splits)
qed

lemma clear_bits_frame:
  "cfg_part (xEventGroupClearBits b w) = cfg_part w
   \<and> calls (xEventGroupClearBits b w) = calls w"
  by (simp add: xEventGroupClearBits_def cfg_part_def)

lemma wifi_scan_done_frame:
  "cfg_part (wifi_scan_done P sc w) = cfg_part w \<and> calls (wifi_scan_done P sc w) = calls w"
  using kref_put_frame calloc_scan_ref_frame [of w] calloc_ap_records_frame
    fetch_ap_records_frame publish_scan_frame clear_bits_frame
  by (simp add: wifi_scan_done_def esp_wmngr_put_scan_def Let_def case_prod_unfold)

lemma wifi_scan_start_frame:
  "cfg_part (wifi_scan_start sc w) = cfg_part w
   \<and> (\<exists>cs. calls (wifi_scan_start sc w) = calls w @ cs)"
  by (simp add: wifi_scan_start_def xEventGroupClearBits_def xEventGroupSetBits_def
      log_calls_def cfg_part_def Let_def split: option.splits prod.splits)

lemma scan_service_frame:
  "cfg_part (fst (scan_service P e ev d w)) = cfg_part w \<and>
   (\<exists>cs. calls (fst (scan_service P e ev d w)) = calls w @ cs)"
  using wifi_scan_start_frame [of "e_scan e" w] wifi_scan_done_frame [of P "e_scan e" w]
  by (auto simp add: scan_service_def Let_def)

lemma scan_service_fields:
  "cfg_timestamp (fst (scan_service P e ev d w)) = cfg_timestamp w \<and>
   state (fst (scan_service P e ev d w)) = state w \<and>
   saved (fst (scan_service P e ev d w)) = saved w \<and>
   current (fst (scan_service P e ev d w)) = current w \<and>
   new (fst (scan_service P e ev d w)) = new w \<and>
   nvs (fst (scan_service P e ev d w)) = nvs w"
  using scan_service_frame [of P e ev d w] by (simp add: cfg_part_def)

lemma scan_service_calls:
  "\<exists>cs. calls (fst (scan_service P e ev d w)) = calls w @ cs"
  using scan_service_frame [of P e ev d w] by simp

lemma scan_service_transitional:
  "state_val (state w) > state_val wmngr_state_idle \<Longrightarrow> scan_service P e ev d w = (w, d)"
  by (simp add: scan_service_def)

section \<open>What applying a configuration changes\<close>

lemma set_wifi_cfg_cfg:
  "fst (snd (set_wifi_cfg P se cfg w)) =
     (if mode cfg = WIFI_MODE_APSTA \<or> mode cfg = WIFI_MODE_AP
      then cfg\<lparr>ap := set_max_connection P (ap cfg)\<rparr> else cfg)"
  by (simp add: set_wifi_cfg_def Let_def split: prod.splits option.splits)

lemma set_wifi_cfg_mode:
  "mode (fst (snd (set_wifi_cfg P se cfg w))) = mode cfg \<and>
   sta_connect (fst (snd (set_wifi_cfg P se cfg w))) = sta_connect cfg \<and>
   is_default (fst (snd (set_wifi_cfg P se cfg w))) = is_default cfg"
  by (simp add: set_wifi_cfg_cfg)

lemma set_wifi_cfg_frame:
  "state (snd (snd (set_wifi_cfg P se cfg w))) = state w \<and>
   cfg_timestamp (snd (snd (set_wifi_cfg P se cfg w))) = cfg_timestamp w \<and>
   saved (snd (snd (set_wifi_cfg P se cfg w))) = saved w \<and>
   current (snd (snd (set_wifi_cfg P se cfg w))) = cfg \<and>
   new (snd (snd (set_wifi_cfg P se cfg w))) = new w \<and>
   nvs (snd (snd (set_wifi_cfg P se cfg w))) = nvs w \<and>
   wifi_events (snd (snd (set_wifi_cfg P se cfg w))) = wifi_events w"
  by (simp add: set_wifi_cfg_def wifi_start_connect_def log_calls_def Let_def
      split: prod.splits option.splits)

lemma set_wifi_cfg_calls:
  "\<exists>cs. calls (snd (snd (set_wifi_cfg P se cfg w)))
          = calls w @ Esp_wifi_restore # Esp_wifi_set_mode (mode cfg) # cs"
  by (simp add: set_wifi_cfg_def wifi_start_connect_def log_calls_def Let_def
      split: prod.splits option.splits)

lemma set_dns_loop_ok:
  assumes "\<forall>idx \<in> set idxs. \<not> ip_addr_isany_val P (dns_entry P dns idx) \<longrightarrow> r idx = ESP_OK"
  shows "snd (set_dns_loop P r dns idxs) = None"
  using assms by (induction idxs) (simp_all add: Let_def case_prod_unfold)

lemma set_wifi_cfg_ok:
  assumes "driver_calls_ok P se cfg"
  shows "fst (set_wifi_cfg P se cfg w) = ESP_OK"
proof -
  have d: "snd (set_dns_loop P (set_dns_info_r se) (sta_dns_info cfg)
                  [0 ..< TCPIP_ADAPTER_DNS_MAX P]) = None"
    if "mode cfg = WIFI_MODE_APSTA \<or> mode cfg = WIFI_MODE_STA" "sta_static cfg"
    using assms that by (intro set_dns_loop_ok) (simp add: driver_calls_ok_def)
  have s: "fst (wifi_start_connect se c v) = ESP_OK"
    if "mode c = mode cfg" "sta_connect c = sta_connect cfg" for c v
    using assms that by (auto simp add: wifi_start_connect_def driver_calls_ok_def Let_def)
  show ?thesis
    using d s
    by (auto simp add: set_wifi_cfg_def Let_def case_prod_unfold split: option.splits)
qed

section \<open>The steps of the state machine\<close>

lemma on_exit_frame:
  "cfg_timestamp (on_exit e (w, d)) = cfg_timestamp w \<and>
   saved (on_exit e (w, d)) = saved w \<and>
   current (on_exit e (w, d)) = current w \<and>
   new (on_exit e (w, d)) = new w \<and>
   nvs (on_exit e (w, d)) = nvs w \<and>
   state (on_exit e (w, d))
     = (if d > 0 \<and> \<not> timer_pass e then wmngr_state_failed else state w) \<and>
   calls (on_exit e (w, d)) = calls w @ (if d > 0 then [XTimerChangePeriod d] else [])"
  by (simp add: on_exit_def log_calls_def Let_def)

lemma handle_wifi_fallback_eq:
  assumes "state w = wmngr_state_fallback" "lock_taken e" "fst (wifi_get_mode_r e) = ESP_OK"
  shows "handle_wifi P e w =
     on_exit e (scan_service P e (wifi_events w) 0
       ((snd (snd (set_wifi_cfg P (e_set e) (saved w) (log_calls [Esp_wifi_disconnect] w))))
          \<lparr>saved := fst (snd (set_wifi_cfg P (e_set e) (saved w)
                                 (log_calls [Esp_wifi_disconnect] w))),
           state := wmngr_state_failed\<rparr>))"
  using assms
  by (simp add: handle_wifi_def dispatch_def step_fallback_def Let_def case_prod_unfold
      log_calls_def)

lemma step_update_eq:
  "step_update P e (tick_count e) w =
    (let w0 = log_calls [Esp_wifi_scan_stop, Esp_wifi_disconnect] w;
         res = set_wifi_cfg P (e_set e) (new w) w0;
         w1 = (snd (snd res))\<lparr>new := fst (snd res)\<rparr>
     in if fst res \<noteq> ESP_OK then (w1\<lparr>state := wmngr_state_fallback\<rparr>, CFG_DELAY P, True)
        else if mode (new w) = WIFI_MODE_AP \<or> \<not> sta_connect (new w)
        then (w1\<lparr>state := wmngr_state_idle\<rparr>, 0, False)
        else (w1\<lparr>cfg_timestamp := tick_count e, state := wmngr_state_connecting\<rparr>,
              CFG_TICKS P, False))"
  by (simp add: step_update_def Let_def case_prod_unfold log_calls_def set_wifi_cfg_mode)

lemma handle_wifi_update_eq:
  assumes "state w = wmngr_state_update" "lock_taken e" "fst (wifi_get_mode_r e) = ESP_OK"
  shows "handle_wifi P e w =
    (let w0 = log_calls [Esp_wifi_scan_stop, Esp_wifi_disconnect] w;
         res = set_wifi_cfg P (e_set e) (new w) w0;
         w1 = (snd (snd res))\<lparr>new := fst (snd res)\<rparr>
     in if fst res \<noteq> ESP_OK
        then on_exit e (w1\<lparr>state := wmngr_state_fallback\<rparr>, CFG_DELAY P)
        else if mode (new w) = WIFI_MODE_AP \<or> \<not> sta_connect (new w)
        then on_exit e (scan_service P e (wifi_events w) 0 (w1\<lparr>state := wmngr_state_idle\<rparr>))
        else on_exit e (w1\<lparr>cfg_timestamp := tick_count e, state := wmngr_state_connecting\<rparr>,
                        CFG_TICKS P))"
  using assms
  by (simp add: handle_wifi_def dispatch_def step_update_eq Let_def scan_service_transitional)

lemma handle_wifi_connecting_eq:
  assumes "state w = wmngr_state_connecting" "lock_taken e" "fst (wifi_get_mode_r e) = ESP_OK"
    "sta_connected w"
  shows "handle_wifi P e w =
     on_exit e (scan_service P e (wifi_events w) 0
       (w\<lparr>state := wmngr_state_connected,
          nvs := snd (save_config P (e_nvs e) (new w) (nvs w))\<rparr>))"
  using assms
  by (simp add: handle_wifi_def dispatch_def step_connecting_def Let_def case_prod_unfold)

lemma handle_wifi_get_mode_fails:
  assumes "lock_taken e" "fst (wifi_get_mode_r e) \<noteq> ESP_OK"
  shows "handle_wifi P e w = w\<lparr>state := wmngr_state_failed\<rparr>"
  using assms by (simp add: handle_wifi_def on_exit_def Let_def)

section \<open>Persistence: round trip and failed writes\<close>

lemma write_fields_ok:
  assumes "write_fields P ne X st = (ESP_OK, st')"
  shows "st' = st(''mode'' \<mapsto> NVS_U32 (mode X),
                 ''sta_static'' \<mapsto> NVS_U32 (of_bool (sta_static X)),
                 ''sta_connect'' \<mapsto> NVS_U32 (of_bool (sta_connect X)),
                 ''ap'' \<mapsto> NVS_BLOB (take (SIZEOF_WIFI_CONFIG P) (ap X)),
                 ''sta'' \<mapsto> NVS_BLOB (take (SIZEOF_WIFI_CONFIG P) (sta X)),
                 ''ap_ip'' \<mapsto> NVS_BLOB (take (SIZEOF_IP_INFO P) (ap_ip_info X)),
                 ''sta_ip'' \<mapsto> NVS_BLOB (take (SIZEOF_IP_INFO P) (sta_ip_info X)),
                 ''sta_dns'' \<mapsto> NVS_BLOB (take (sizeof_sta_dns_info P) (sta_dns_info X)))"
  using assms
  by (auto simp add: write_fields_def nvs_set_u32_def nvs_set_blob_def split: if_splits)

lemma load_written:
  assumes "wf_cfg P X" "\<not> is_default X"
  shows "get_saved_config P ESP_OK (st(''mode'' \<mapsto> NVS_U32 (mode X),
                 ''sta_static'' \<mapsto> NVS_U32 (of_bool (sta_static X)),
                 ''sta_connect'' \<mapsto> NVS_U32 (of_bool (sta_connect X)),
                 ''ap'' \<mapsto> NVS_BLOB (take (SIZEOF_WIFI_CONFIG P) (ap X)),
                 ''sta'' \<mapsto> NVS_BLOB (take (SIZEOF_WIFI_CONFIG P) (sta X)),
                 ''ap_ip'' \<mapsto> NVS_BLOB (take (SIZEOF_IP_INFO P) (ap_ip_info X)),
                 ''sta_ip'' \<mapsto> NVS_BLOB (take (SIZEOF_IP_INFO P) (sta_ip_info X)),
                 ''sta_dns'' \<mapsto> NVS_BLOB (take (sizeof_sta_dns_info P) (sta_dns_info X))))
         = (ESP_OK, X)"
  using assms
  by (simp add: get_saved_config_def nvs_get_u32_def nvs_get_blob_def blob_check_def
        zero_cfg_def zeroes_def wf_cfg_def Let_def)

lemma load_empty: "get_saved_config P ESP_OK Map.empty = (ESP_ERR_NVS_NOT_FOUND, zero_cfg P)"
  by (simp add: get_saved_config_def nvs_get_u32_def Let_def)

lemma save_ok_cases:
  assumes "save_config P ne X st = (ESP_OK, st')"
  shows "if is_default X then st' = Map.empty
         else write_fields P ne X Map.empty = (ESP_OK, st')"
  using assms
  by (auto simp add: save_config_def nvs_erase_all_def split: if_splits prod.splits)

lemma save_ok_loads:
  assumes "wf_cfg P X" and "\<not> is_default X" and "save_config P ne X st = (ESP_OK, st')"
  shows "get_saved_config P ESP_OK st' = (ESP_OK, X)"
proof -
  from save_ok_cases [OF assms(3)] assms(2)
  have "write_fields P ne X Map.empty = (ESP_OK, st')" by simp
  from write_fields_ok [OF this] load_written [OF assms(1) assms(2)]
  show ?thesis by simp
qed

lemma save_failed_cleanup:
  assumes "nvs_open_r ne = ESP_OK" "nvs_erase_all_cleanup_r ne = ESP_OK"
    and "save_config P ne X st = (r, st')" "r \<noteq> ESP_OK"
  shows "st' = Map.empty"
  using assms
  by (auto simp add: save_config_def nvs_erase_all_def split: if_splits prod.splits)

lemma wf_cfg_sta_home: "wf_cfg esp32_platform cfg_sta_home"
  by (simp add: wf_cfg_def cfg_sta_home_def zero_cfg_def zeroes_def esp32_platform_def
      sizeof_sta_dns_info_def)

lemma wf_cfg_factory: "wf_cfg esp32_platform cfg_factory"
  by (simp add: wf_cfg_def cfg_factory_def zero_cfg_def zeroes_def esp32_platform_def
      sizeof_sta_dns_info_def)

lemma save_sta_home:
  "save_config esp32_platform nvs_all_ok cfg_sta_home Map.empty = (ESP_OK, store_sta_home)"
  by (simp add: store_sta_home_def save_config_def nvs_all_ok_def nvs_erase_all_def
      cfg_sta_home_def zero_cfg_def write_fields_def nvs_set_u32_def nvs_set_blob_def)

lemma save_factory:
  "save_config esp32_platform nvs_all_ok cfg_factory store_sta_home = (ESP_OK, Map.empty)"
  by (simp add: save_config_def nvs_all_ok_def nvs_erase_all_def cfg_factory_def zero_cfg_def)

lemma store_sta_home_mode: "store_sta_home ''mode'' = Some (NVS_U32 WIFI_MODE_STA)"
  by (simp add: store_sta_home_def save_config_def nvs_all_ok_def nvs_erase_all_def
      cfg_sta_home_def zero_cfg_def write_fields_def nvs_set_u32_def nvs_set_blob_def)

text \<open>
  C3 (as amended).  A successful \<open>save_config X\<close> of a non-default configuration, followed
  by a load whose \<open>nvs_open\<close> succeeds, returns \<open>X\<close> in every field; a successful
  \<open>save_config X\<close> of a default configuration leaves the store empty, and such a load
  then reports not-found.
\<close>

theorem save_load_roundtrip:
  assumes "wf_cfg P X" and "save_config P ne X st = (ESP_OK, st')"
  shows "(\<not> is_default X \<longrightarrow> get_saved_config P ESP_OK st' = (ESP_OK, X)) \<and>
         (is_default X \<longrightarrow> st' = Map.empty \<and>
            get_saved_config P ESP_OK st' = (ESP_ERR_NVS_NOT_FOUND, zero_cfg P))"
proof (cases "is_default X")
  case True
  with save_ok_cases [OF assms(2)] have "st' = Map.empty" by simp
  with True show ?thesis by (simp add: load_empty)
next
  case False
  with save_ok_loads [OF assms(1) _ assms(2)] show ?thesis by simp
qed

theorem save_load_roundtrip_witness:
  "get_saved_config esp32_platform ESP_OK store_sta_home = (ESP_OK, cfg_sta_home) \<and>
   get_saved_config esp32_platform ESP_OK Map.empty
     = (ESP_ERR_NVS_NOT_FOUND, zero_cfg esp32_platform)"
  using save_load_roundtrip [OF wf_cfg_sta_home save_sta_home]
    save_load_roundtrip [OF wf_cfg_factory save_factory]
  by (simp add: cfg_sta_home_def cfg_factory_def zero_cfg_def)

text \<open>
  C3 as stated fails: when \<open>nvs_open\<close> fails, \<open>save_config\<close> of a default configuration
  returns at once; the previous record stays in the store and a later load finds it.
\<close>

theorem save_default_open_fails_counterexample:
  "is_default cfg_factory \<and>
   save_config esp32_platform nvs_open_fails cfg_factory store_sta_home
     = (ESP_FAIL, store_sta_home) \<and>
   store_sta_home \<noteq> Map.empty \<and>
   get_saved_config esp32_platform ESP_OK store_sta_home = (ESP_OK, cfg_sta_home)"
proof -
  have "store_sta_home \<noteq> Map.empty"
    using store_sta_home_mode by (metis option.distinct(1))
  moreover have "get_saved_config esp32_platform ESP_OK store_sta_home = (ESP_OK, cfg_sta_home)"
    using save_ok_loads [OF wf_cfg_sta_home _ save_sta_home]
    by (simp add: cfg_sta_home_def zero_cfg_def)
  ultimately show ?thesis
    by (simp add: save_config_def nvs_open_fails_def nvs_all_ok_def cfg_factory_def zero_cfg_def)
qed

text \<open>
  C6.  \<open>save_config\<close> promises that "on return there will either be a valid config or
  no config at all stored in the NVS", and its \<open>on_exit\<close> path erases the namespace
  after a failed write because "we do not want to leave a half-written config lying
  around".  The result of that \<open>nvs_erase_all\<close> is discarded by a \<open>(void)\<close> cast: when
  the write of \<open>sta_static\<close> fails and the clean-up erase fails as well, \<open>save_config\<close>
  returns the error while the store holds the field \<open>mode\<close> alone, a half-written record
  from which no configuration can be loaded.
\<close>

theorem save_config_leaves_partial_record:
  "save_config esp32_platform nvs_write_and_cleanup_fail cfg_sta_home Map.empty
     = (ESP_FAIL, [''mode'' \<mapsto> NVS_U32 WIFI_MODE_STA]) \<and>
   [''mode'' \<mapsto> NVS_U32 WIFI_MODE_STA] \<noteq> (Map.empty :: nvs_store) \<and>
   fst (get_saved_config esp32_platform ESP_OK [''mode'' \<mapsto> NVS_U32 WIFI_MODE_STA])
     = ESP_ERR_NVS_NOT_FOUND"
proof -
  have "[''mode'' \<mapsto> NVS_U32 WIFI_MODE_STA] ''mode'' \<noteq> (Map.empty :: nvs_store) ''mode''"
    by simp
  then have "[''mode'' \<mapsto> NVS_U32 WIFI_MODE_STA] \<noteq> (Map.empty :: nvs_store)"
    by metis
  then show ?thesis
    by (simp add: save_config_def nvs_write_and_cleanup_fail_def nvs_second_write_fails_def
        nvs_all_ok_def nvs_erase_all_def cfg_sta_home_def zero_cfg_def write_fields_def
        nvs_set_u32_def nvs_set_blob_def get_saved_config_def nvs_get_u32_def Let_def)
qed

section \<open>Scan start\<close>

text \<open>
  C7 (as amended).  For every invocation of \<open>wifi_scan_start\<close> in a stable state: the
  \<open>scan_start\<close> flag is cleared first; if the radio mode cannot be read or is neither
  STA nor APSTA, or if a scan is running or complete but not collected, nothing else is
  done (no scan is issued, \<open>scan_start\<close> stays cleared); otherwise \<open>scan_start\<close> is set
  again, an active scan including hidden networks is requested, \<open>scan_running\<close> is set
  exactly when the request succeeds, and \<open>scan_start\<close> is still set on return.
\<close>

theorem wifi_scan_start_stable:
  assumes "state_val (state w) \<le> state_val wmngr_state_idle"
  shows "let w' = wifi_scan_start sc w;
             m = snd (scan_get_mode_r sc);
             mode_ok = (fst (scan_get_mode_r sc) = ESP_OK \<and> (m = WIFI_MODE_APSTA \<or> m = WIFI_MODE_STA));
             busy = (wifi_events w AND (BIT_SCAN_RUNNING OR BIT_SCAN_DONE) \<noteq> 0)
         in (\<not> mode_ok \<or> busy \<longrightarrow>
               w' = xEventGroupClearBits BIT_SCAN_START w \<and>
               calls w' = calls w \<and>
               wifi_events w' AND BIT_SCAN_START = 0) \<and>
            (mode_ok \<and> \<not> busy \<longrightarrow>
               calls w' = calls w @ [Esp_wifi_scan_start True WIFI_SCAN_TYPE_ACTIVE False] \<and>
               wifi_events w' AND BIT_SCAN_START \<noteq> 0 \<and>
               (wifi_events w' AND BIT_SCAN_RUNNING \<noteq> 0 \<longleftrightarrow> scan_start_r sc = ESP_OK))"
proof -
  obtain r m where rm: "scan_get_mode_r sc = (r, m)" by (cases "scan_get_mode_r sc")
  have nb: "wifi_events w AND (BIT_SCAN_RUNNING OR BIT_SCAN_DONE) = 0 \<Longrightarrow> wifi_events w AND BIT_SCAN_RUNNING = 0"
    by (auto simp add: bit_eq_iff bit_simps)
  show ?thesis
    using assms rm nb
    by (auto simp add: wifi_scan_start_def Let_def xEventGroupClearBits_def xEventGroupSetBits_def
        log_calls_def clear_then_test set_then_test clear_other [OF scan_mask_start_disjoint] set_other [OF start_running_disjoint]
        set_other [OF running_start_disjoint] clear_other [OF running_start_disjoint]
        start_bit_nonzero running_bit_nonzero)
qed

theorem wifi_scan_start_stable_witness:
  "calls (wifi_scan_start scan_env_ok world_idle) = [Esp_wifi_scan_start True WIFI_SCAN_TYPE_ACTIVE False] \<and>
   wifi_events (wifi_scan_start scan_env_ok world_idle) AND BIT_SCAN_START \<noteq> 0 \<and>
   wifi_events (wifi_scan_start scan_env_ok world_idle) AND BIT_SCAN_RUNNING \<noteq> 0"
  using wifi_scan_start_stable [of world_idle scan_env_ok]
  by (simp add: world_idle_def scan_env_ok_def Let_def WIFI_MODE_APSTA_def)

text \<open>
  C7 as stated fails: when a scan is requested, \<open>scan_start\<close> is set again before the
  request and is still set when \<open>wifi_scan_start\<close> returns.
\<close>

theorem wifi_scan_start_flag_counterexample:
  "state_val (state world_idle) \<le> state_val wmngr_state_idle \<and>
   wifi_events world_idle = 0 \<and>
   scan_get_mode_r scan_env_ok = (ESP_OK, WIFI_MODE_APSTA) \<and>
   wifi_events (wifi_scan_start scan_env_ok world_idle) = BIT_SCAN_START OR BIT_SCAN_RUNNING \<and>
   wifi_events (wifi_scan_start scan_env_ok world_idle) AND BIT_SCAN_START \<noteq> 0"
  by (simp add: wifi_scan_start_def world_idle_def scan_env_ok_def Let_def
      xEventGroupClearBits_def xEventGroupSetBits_def log_calls_def
      WIFI_MODE_APSTA_def WIFI_MODE_STA_def
      BIT_SCAN_START_def BIT_SCAN_RUNNING_def BIT_SCAN_DONE_def)

section \<open>Fall-back and update steps\<close>

lemma set_wifi_cfg_result:
  assumes "\<not> sta_static cfg"
  shows "fst (set_wifi_cfg P se cfg w)
     = (if sta_connect cfg \<and> (mode cfg = WIFI_MODE_STA \<or> mode cfg = WIFI_MODE_APSTA)
        then connect_r se else start_r se)"
  using assms
  by (simp add: set_wifi_cfg_def wifi_start_connect_def Let_def case_prod_unfold)

lemma platform_delays:
  "CFG_DELAY esp32_platform = 10 \<and> CFG_TICKS esp32_platform = 100
   \<and> CFG_TIMEOUT esp32_platform = 6000"
  by (simp add: CFG_DELAY_def CFG_TICKS_def CFG_TIMEOUT_def esp32_platform_def)

text \<open>
  C1 (as amended).  In every execution of the state-machine step in state \<open>fallback\<close> in
  which the lock is obtained and the radio mode can be read, the step disconnects and
  applies the saved configuration to the radio (\<open>current\<close> becomes what \<open>saved\<close> held),
  whatever the driver answers to that apply, and sets state to \<open>failed\<close>.
\<close>

theorem handle_wifi_fallback:
  assumes "state w = wmngr_state_fallback" and "lock_taken e"
    and "fst (wifi_get_mode_r e) = ESP_OK"
  shows "state (handle_wifi P e w) = wmngr_state_failed \<and>
         current (handle_wifi P e w) = saved w \<and>
         (\<exists>cs. calls (handle_wifi P e w)
                 = calls (snd (snd (set_wifi_cfg P (e_set e) (saved w)
                                      (log_calls [Esp_wifi_disconnect] w)))) @ cs) \<and>
         (\<exists>cs. calls (handle_wifi P e w)
                 = calls w @ Esp_wifi_disconnect # Esp_wifi_restore
                     # Esp_wifi_set_mode (mode (saved w)) # cs)"
proof -
  let ?w0 = "log_calls [Esp_wifi_disconnect] w"
  let ?res = "set_wifi_cfg P (e_set e) (saved w) ?w0"
  let ?w1 = "snd (snd ?res)"
  let ?w2 = "?w1\<lparr>saved := fst (snd ?res), state := wmngr_state_failed\<rparr>"
  let ?sv = "scan_service P e (wifi_events w) 0 ?w2"
  have eq: "handle_wifi P e w = on_exit e (fst ?sv, snd ?sv)"
    using handle_wifi_fallback_eq [OF assms] by simp
  have st: "state (handle_wifi P e w) = wmngr_state_failed"
    using on_exit_frame [of e "fst ?sv" "snd ?sv"] scan_service_fields [of P e "wifi_events w" 0 ?w2]
    by (simp add: eq)
  have cur: "current (handle_wifi P e w) = saved w"
    using on_exit_frame [of e "fst ?sv" "snd ?sv"] scan_service_fields [of P e "wifi_events w" 0 ?w2]
      set_wifi_cfg_frame [of P "e_set e" "saved w" ?w0]
    by (simp add: eq log_calls_def)
  obtain cs1 where cs1: "calls (fst ?sv) = calls ?w2 @ cs1"
    using scan_service_calls [of P e "wifi_events w" 0 ?w2] by blast
  have c2: "calls ?w2 = calls ?w1" by simp
  have "calls (handle_wifi P e w)
          = calls ?w1 @ (cs1 @ (if snd ?sv > 0 then [XTimerChangePeriod (snd ?sv)] else []))"
    using on_exit_frame [of e "fst ?sv" "snd ?sv"] cs1 c2 by (simp add: eq)
  then have ex1: "\<exists>cs. calls (handle_wifi P e w) = calls ?w1 @ cs" by blast
  obtain cs2 where cs2: "calls ?w1 = calls ?w0 @ Esp_wifi_restore # Esp_wifi_set_mode (mode (saved w)) # cs2"
    using set_wifi_cfg_calls [of P "e_set e" "saved w" ?w0] by blast
  from ex1 obtain cs where "calls (handle_wifi P e w) = calls ?w1 @ cs" by blast
  with cs2 have "calls (handle_wifi P e w)
      = calls w @ Esp_wifi_disconnect # Esp_wifi_restore # Esp_wifi_set_mode (mode (saved w)) # (cs2 @ cs)"
    by (simp add: log_calls_def)
  then have ex2: "\<exists>cs. calls (handle_wifi P e w)
                 = calls w @ Esp_wifi_disconnect # Esp_wifi_restore
                     # Esp_wifi_set_mode (mode (saved w)) # cs" by blast
  from st cur ex1 ex2 show ?thesis by blast
qed

theorem handle_wifi_fallback_witness:
  "state (handle_wifi esp32_platform env_ok world_fallback) = wmngr_state_failed \<and>
   current (handle_wifi esp32_platform env_ok world_fallback) = cfg_factory"
  using handle_wifi_fallback [of world_fallback env_ok esp32_platform]
  by (simp add: world_fallback_def world_idle_def env_ok_def)

text \<open>
  C1 as stated fails: when \<open>esp_wifi_get_mode\<close> fails at the top of the step, the step
  sets \<open>failed\<close> and leaves; it sends nothing to the radio and \<open>current\<close> keeps the
  rejected configuration.
\<close>

theorem handle_wifi_fallback_counterexample:
  "state world_fallback = wmngr_state_fallback \<and>
   lock_taken env_get_mode_fails \<and>
   state (handle_wifi esp32_platform env_get_mode_fails world_fallback) = wmngr_state_failed \<and>
   calls (handle_wifi esp32_platform env_get_mode_fails world_fallback) = calls world_fallback \<and>
   current (handle_wifi esp32_platform env_get_mode_fails world_fallback) = cfg_sta_home \<and>
   saved world_fallback = cfg_factory \<and>
   cfg_sta_home \<noteq> cfg_factory"
proof -
  have l: "lock_taken env_get_mode_fails" and m: "fst (wifi_get_mode_r env_get_mode_fails) \<noteq> ESP_OK"
    by (simp_all add: env_get_mode_fails_def env_ok_def)
  have ne: "cfg_sta_home \<noteq> cfg_factory"
  proof
    assume "cfg_sta_home = cfg_factory"
    then have "is_default cfg_sta_home = is_default cfg_factory" by simp
    then show False by (simp add: cfg_sta_home_def cfg_factory_def zero_cfg_def)
  qed
  show ?thesis
    using l ne
    by (simp add: handle_wifi_get_mode_fails [OF l m] world_fallback_def world_idle_def)
qed

text \<open>
  C5 (as amended).  In every execution of the step in state \<open>update\<close> in which the lock
  is obtained and the radio mode can be read (and the tick constants are positive): it
  stops any scan, disconnects and applies \<open>new\<close> to the radio; if \<open>set_wifi_cfg\<close>
  reports an error the next state is \<open>fallback\<close> and the wake-up is re-armed with
  \<open>CFG_DELAY\<close>; if every driver call of the apply succeeds and \<open>new.mode\<close> is AP or
  \<open>new.sta_connect\<close> is false the next state is \<open>idle\<close>; if every driver call of the
  apply succeeds otherwise, \<open>cfg_timestamp\<close> is the current tick, the next state is
  \<open>connecting\<close> and the wake-up is re-armed with \<open>CFG_TICKS\<close>.  In each case a failed
  re-arming of the wake-up makes the state \<open>failed\<close> instead.
\<close>

theorem handle_wifi_update:
  assumes "state w = wmngr_state_update" and "lock_taken e"
    and "fst (wifi_get_mode_r e) = ESP_OK"
    and "0 < CFG_DELAY P" and "0 < CFG_TICKS P"
  shows "let res = set_wifi_cfg P (e_set e) (new w)
                     (log_calls [Esp_wifi_scan_stop, Esp_wifi_disconnect] w);
             all_ok = driver_calls_ok P (e_set e) (new w);
             w' = handle_wifi P e w
         in current w' = new w \<and>
            (\<exists>cs. calls w' = calls (snd (snd res)) @ cs) \<and>
            (\<exists>cs. calls w' = calls w @ Esp_wifi_scan_stop # Esp_wifi_disconnect
                       # Esp_wifi_restore # Esp_wifi_set_mode (mode (new w)) # cs) \<and>
            (fst res \<noteq> ESP_OK \<longrightarrow>
               state w' = (if timer_pass e then wmngr_state_fallback else wmngr_state_failed) \<and>
               calls w' = calls (snd (snd res)) @ [XTimerChangePeriod (CFG_DELAY P)]) \<and>
            (all_ok \<and> (mode (new w) = WIFI_MODE_AP \<or> \<not> sta_connect (new w)) \<longrightarrow>
               (state w' = wmngr_state_idle \<or> \<not> timer_pass e \<and> state w' = wmngr_state_failed) \<and>
               (timer_pass e \<longrightarrow> state w' = wmngr_state_idle)) \<and>
            (all_ok \<and> mode (new w) \<noteq> WIFI_MODE_AP \<and> sta_connect (new w) \<longrightarrow>
               cfg_timestamp w' = tick_count e \<and>
               state w' = (if timer_pass e then wmngr_state_connecting else wmngr_state_failed) \<and>
               calls w' = calls (snd (snd res)) @ [XTimerChangePeriod (CFG_TICKS P)])"
proof -
  let ?w0 = "log_calls [Esp_wifi_scan_stop, Esp_wifi_disconnect] w"
  let ?res = "set_wifi_cfg P (e_set e) (new w) ?w0"
  let ?w1 = "(snd (snd ?res))\<lparr>new := fst (snd ?res)\<rparr>"
  let ?w' = "handle_wifi P e w"
  note eq = handle_wifi_update_eq [OF assms(1,2,3), of P]
  note fr = set_wifi_cfg_frame [of P "e_set e" "new w" ?w0]
  have ok: "fst ?res = ESP_OK" if "driver_calls_ok P (e_set e) (new w)"
    using set_wifi_cfg_ok [OF that] .
  have fail: "state ?w' = (if timer_pass e then wmngr_state_fallback else wmngr_state_failed) \<and>
              calls ?w' = calls (snd (snd ?res)) @ [XTimerChangePeriod (CFG_DELAY P)]"
    if "fst ?res \<noteq> ESP_OK"
    using that assms(4) fr on_exit_frame [of e "?w1\<lparr>state := wmngr_state_fallback\<rparr>" "CFG_DELAY P"]
    by (simp add: eq Let_def)
  have conn: "cfg_timestamp ?w' = tick_count e \<and>
              state ?w' = (if timer_pass e then wmngr_state_connecting else wmngr_state_failed) \<and>
              calls ?w' = calls (snd (snd ?res)) @ [XTimerChangePeriod (CFG_TICKS P)]"
    if "driver_calls_ok P (e_set e) (new w)" "mode (new w) \<noteq> WIFI_MODE_AP" "sta_connect (new w)"
    using ok [OF that(1)] that(2,3) assms(5) fr
      on_exit_frame [of e "?w1\<lparr>cfg_timestamp := tick_count e, state := wmngr_state_connecting\<rparr>" "CFG_TICKS P"]
    by (simp add: eq Let_def)
  let ?sv = "scan_service P e (wifi_events w) 0 (?w1\<lparr>state := wmngr_state_idle\<rparr>)"
  have idle: "(state ?w' = wmngr_state_idle \<or> \<not> timer_pass e \<and> state ?w' = wmngr_state_failed) \<and>
              (timer_pass e \<longrightarrow> state ?w' = wmngr_state_idle)"
    if h: "driver_calls_ok P (e_set e) (new w)"
      "mode (new w) = WIFI_MODE_AP \<or> \<not> sta_connect (new w)"
  proof -
    have e2: "?w' = on_exit e (fst ?sv, snd ?sv)"
      using ok [OF h(1)] h(2) by (simp add: eq Let_def)
    show ?thesis
      using on_exit_frame [of e "fst ?sv" "snd ?sv"]
       scan_service_fields [of P e "wifi_events w" 0 "?w1\<lparr>state := wmngr_state_idle\<rparr>"]
      by (simp add: e2)
  qed
  have shape: "?w' = on_exit e (?w1\<lparr>state := wmngr_state_fallback\<rparr>, CFG_DELAY P)
      \<or> ?w' = on_exit e (fst ?sv, snd ?sv)
      \<or> ?w' = on_exit e (?w1\<lparr>cfg_timestamp := tick_count e,
                                state := wmngr_state_connecting\<rparr>, CFG_TICKS P)"
    unfolding eq Let_def by simp
  obtain cs1 where cs1: "calls (fst ?sv) = calls (?w1\<lparr>state := wmngr_state_idle\<rparr>) @ cs1"
    using scan_service_calls [of P e "wifi_events w" 0 "?w1\<lparr>state := wmngr_state_idle\<rparr>"] by blast
  have cur: "current ?w' = new w"
    using shape fr on_exit_frame [of e "?w1\<lparr>state := wmngr_state_fallback\<rparr>" "CFG_DELAY P"]
      on_exit_frame [of e "fst ?sv" "snd ?sv"]
      on_exit_frame [of e "?w1\<lparr>cfg_timestamp := tick_count e,
                                state := wmngr_state_connecting\<rparr>" "CFG_TICKS P"]
      scan_service_fields [of P e "wifi_events w" 0 "?w1\<lparr>state := wmngr_state_idle\<rparr>"]
    by auto
  have ex1: "\<exists>cs. calls ?w' = calls (snd (snd ?res)) @ cs"
    using shape cs1 on_exit_frame [of e "?w1\<lparr>state := wmngr_state_fallback\<rparr>" "CFG_DELAY P"]
      on_exit_frame [of e "fst ?sv" "snd ?sv"]
      on_exit_frame [of e "?w1\<lparr>cfg_timestamp := tick_count e,
                                state := wmngr_state_connecting\<rparr>" "CFG_TICKS P"]
    by auto
  obtain cs2 where cs2: "calls (snd (snd ?res)) = calls ?w0 @ Esp_wifi_restore # Esp_wifi_set_mode (mode (new w)) # cs2"
    using set_wifi_cfg_calls [of P "e_set e" "new w" ?w0] by blast
  from ex1 obtain cs where "calls ?w' = calls (snd (snd ?res)) @ cs" by blast
  with cs2 have "calls ?w' = calls w @ Esp_wifi_scan_stop # Esp_wifi_disconnect
                       # Esp_wifi_restore # Esp_wifi_set_mode (mode (new w)) # (cs2 @ cs)"
    by (simp add: log_calls_def)
  then have ex2: "\<exists>cs. calls ?w' = calls w @ Esp_wifi_scan_stop # Esp_wifi_disconnect
                       # Esp_wifi_restore # Esp_wifi_set_mode (mode (new w)) # cs" by blast
  show ?thesis
    unfolding Let_def using cur ex1 ex2 fail conn idle by blast
qed

theorem handle_wifi_update_witness:
  "state (handle_wifi esp32_platform env_ok world_update) = wmngr_state_connecting \<and>
   cfg_timestamp (handle_wifi esp32_platform env_ok world_update) = 5000 \<and>
   current (handle_wifi esp32_platform env_ok world_update) = cfg_sta_home"
proof -
  have "driver_calls_ok esp32_platform (e_set env_ok) (new world_update)"
    by (simp add: driver_calls_ok_def world_update_def world_idle_def cfg_sta_home_def
        zero_cfg_def env_ok_def)
  then show ?thesis
    using handle_wifi_update [of world_update env_ok esp32_platform]
    by (simp add: Let_def platform_delays world_update_def world_idle_def env_ok_def
        cfg_sta_home_def zero_cfg_def WIFI_MODE_STA_def WIFI_MODE_AP_def)
qed

text \<open>
  C5 as stated fails: when \<open>esp_wifi_get_mode\<close> fails at the top of the step, nothing
  is sent to the radio, \<open>new\<close> is not applied and the state is \<open>failed\<close>.
\<close>

theorem handle_wifi_update_counterexample:
  "state world_update = wmngr_state_update \<and>
   lock_taken env_get_mode_fails \<and>
   state (handle_wifi esp32_platform env_get_mode_fails world_update) = wmngr_state_failed \<and>
   calls (handle_wifi esp32_platform env_get_mode_fails world_update) = calls world_update \<and>
   current (handle_wifi esp32_platform env_get_mode_fails world_update) = cfg_factory \<and>
   new world_update = cfg_sta_home \<and>
   cfg_factory \<noteq> cfg_sta_home"
proof -
  have l: "lock_taken env_get_mode_fails" and m: "fst (wifi_get_mode_r env_get_mode_fails) \<noteq> ESP_OK"
    by (simp_all add: env_get_mode_fails_def env_ok_def)
  have ne: "cfg_factory \<noteq> cfg_sta_home"
  proof
    assume "cfg_factory = cfg_sta_home"
    then have "is_default cfg_factory = is_default cfg_sta_home" by simp
    then show False by (simp add: cfg_sta_home_def cfg_factory_def zero_cfg_def)
  qed
  show ?thesis
    using l ne
    by (simp add: handle_wifi_get_mode_fails [OF l m] world_update_def world_idle_def)
qed

text \<open>
  \<open>set_wifi_cfg\<close> returns the result of its last driver call (only a failing
  \<open>tcpip_adapter_set_dns_info\<close> leaves early): when the driver rejects the station
  configuration and then accepts \<open>esp_wifi_start\<close> and \<open>esp_wifi_connect\<close>, the step
  in state \<open>update\<close> sees \<open>ESP_OK\<close> and goes on to \<open>connecting\<close>.
\<close>

lemma handle_wifi_update_rejected_config:
  "\<not> driver_calls_ok esp32_platform (e_set env_sta_config_rejected) (new world_update) \<and>
   fst (set_wifi_cfg esp32_platform (e_set env_sta_config_rejected) (new world_update)
          (log_calls [Esp_wifi_scan_stop, Esp_wifi_disconnect] world_update)) = ESP_OK \<and>
   state (handle_wifi esp32_platform env_sta_config_rejected world_update)
     = wmngr_state_connecting"
proof -
  have l: "lock_taken env_sta_config_rejected" "timer_pass env_sta_config_rejected"
    "fst (wifi_get_mode_r env_sta_config_rejected) = ESP_OK"
    by (simp_all add: env_sta_config_rejected_def env_ok_def)
  have u: "state world_update = wmngr_state_update"
    by (simp add: world_update_def world_idle_def)
  have c: "\<not> sta_static (new world_update)" "sta_connect (new world_update)"
    "mode (new world_update) = WIFI_MODE_STA" "WIFI_MODE_STA \<noteq> WIFI_MODE_AP"
    by (simp_all add: world_update_def world_idle_def cfg_sta_home_def zero_cfg_def
        WIFI_MODE_STA_def WIFI_MODE_AP_def)
  let ?res = "set_wifi_cfg esp32_platform (e_set env_sta_config_rejected) (new world_update)
          (log_calls [Esp_wifi_scan_stop, Esp_wifi_disconnect] world_update)"
  let ?w1 = "(snd (snd ?res))\<lparr>new := fst (snd ?res)\<rparr>"
  have r: "fst ?res = ESP_OK"
    using c by (simp add: set_wifi_cfg_result env_sta_config_rejected_def env_ok_def)
  have n: "\<not> driver_calls_ok esp32_platform (e_set env_sta_config_rejected) (new world_update)"
    using c by (simp add: driver_calls_ok_def env_sta_config_rejected_def env_ok_def)
  have "handle_wifi esp32_platform env_sta_config_rejected world_update
      = on_exit env_sta_config_rejected
          (?w1\<lparr>cfg_timestamp := tick_count env_sta_config_rejected,
                state := wmngr_state_connecting\<rparr>, CFG_TICKS esp32_platform)"
    unfolding handle_wifi_update_eq [OF u l(1,3)] Let_def using r c by simp
  then have "state (handle_wifi esp32_platform env_sta_config_rejected world_update)
     = wmngr_state_connecting"
    using l(2) by (simp add: on_exit_frame)
  with r n show ?thesis by simp
qed

section \<open>Public operations in a transitional state\<close>

text \<open>
  C2 (as amended).  Every call of \<open>esp_wmngr_set_cfg\<close>, \<open>esp_wmngr_start_wps\<close>,
  \<open>esp_wmngr_connect\<close> or \<open>esp_wmngr_disconnect\<close> made while the state is greater than
  \<open>idle\<close> leaves the world as it is (no transition is enqueued, the configuration state
  is not modified) and returns \<open>ESP_ERR_INVALID_STATE\<close> if the lock is obtained within
  the bounded wait, \<open>ESP_ERR_TIMEOUT\<close> otherwise.
\<close>

theorem busy_rejection:
  assumes "state_val (state w) > state_val wmngr_state_idle"
  shows "esp_wmngr_set_cfg P e X w
           = (if lock_taken e then ESP_ERR_INVALID_STATE else ESP_ERR_TIMEOUT, w) \<and>
         esp_wmngr_start_wps P e w
           = (if lock_taken e then ESP_ERR_INVALID_STATE else ESP_ERR_TIMEOUT, w) \<and>
         esp_wmngr_connect P e e2 w
           = (if lock_taken e then ESP_ERR_INVALID_STATE else ESP_ERR_TIMEOUT, w) \<and>
         esp_wmngr_disconnect P e e2 w
           = (if lock_taken e then ESP_ERR_INVALID_STATE else ESP_ERR_TIMEOUT, w)"
  using assms
  by (simp add: esp_wmngr_set_cfg_def esp_wmngr_start_wps_def esp_wmngr_connect_def
      esp_wmngr_disconnect_def set_connect_def esp_wmngr_get_cfg_def)

theorem busy_rejection_witness:
  "esp_wmngr_set_cfg esp32_platform env_ok cfg_sta_home world_connecting
     = (ESP_ERR_INVALID_STATE, world_connecting) \<and>
   esp_wmngr_start_wps esp32_platform env_ok world_connecting
     = (ESP_ERR_INVALID_STATE, world_connecting) \<and>
   esp_wmngr_connect esp32_platform env_ok env_ok world_connecting
     = (ESP_ERR_INVALID_STATE, world_connecting) \<and>
   esp_wmngr_disconnect esp32_platform env_ok env_ok world_connecting
     = (ESP_ERR_INVALID_STATE, world_connecting)"
  using busy_rejection [of world_connecting esp32_platform env_ok cfg_sta_home env_ok]
  by (simp add: world_connecting_def world_idle_def env_ok_def)

text \<open>
  C2 as stated fails: when the lock is not obtained within \<open>CFG_DELAY\<close> the call returns
  \<open>ESP_ERR_TIMEOUT\<close>, not \<open>ESP_ERR_INVALID_STATE\<close>.
\<close>

theorem busy_rejection_counterexample:
  "state_val (state world_connecting) > state_val wmngr_state_idle \<and>
   esp_wmngr_set_cfg esp32_platform env_no_lock cfg_sta_home world_connecting
     = (ESP_ERR_TIMEOUT, world_connecting) \<and>
   ESP_ERR_TIMEOUT \<noteq> ESP_ERR_INVALID_STATE"
  by (simp add: esp_wmngr_set_cfg_def env_no_lock_def env_ok_def world_connecting_def
      world_idle_def)

text \<open>
  C9 (as amended).  A call of \<open>esp_wmngr_get_cfg\<close> made while the state is greater than
  \<open>idle\<close> leaves the caller's buffer as it is and returns \<open>ESP_ERR_INVALID_STATE\<close> if
  the lock is obtained within the bounded wait, \<open>ESP_ERR_TIMEOUT\<close> otherwise; the call
  returns \<open>ESP_OK\<close> exactly when the lock is obtained and the state is stable, and then
  the buffer holds \<open>current\<close>; whenever it does not return \<open>ESP_OK\<close> the buffer is
  unmodified.
\<close>

theorem get_cfg_contract:
  "(state_val (state w) > state_val wmngr_state_idle \<longrightarrow>
      esp_wmngr_get_cfg e out w
        = (if lock_taken e then ESP_ERR_INVALID_STATE else ESP_ERR_TIMEOUT, out)) \<and>
   (fst (esp_wmngr_get_cfg e out w) = ESP_OK \<longleftrightarrow>
      lock_taken e \<and> state_val (state w) \<le> state_val wmngr_state_idle) \<and>
   (fst (esp_wmngr_get_cfg e out w) = ESP_OK \<longrightarrow> snd (esp_wmngr_get_cfg e out w) = current w) \<and>
   (fst (esp_wmngr_get_cfg e out w) \<noteq> ESP_OK \<longrightarrow> snd (esp_wmngr_get_cfg e out w) = out)"
  by (simp add: esp_wmngr_get_cfg_def)

theorem get_cfg_contract_witness:
  "esp_wmngr_get_cfg env_ok cfg_factory world_connecting = (ESP_ERR_INVALID_STATE, cfg_factory) \<and>
   esp_wmngr_get_cfg env_ok cfg_sta_home world_idle = (ESP_OK, cfg_factory)"
proof -
  have a: "state_val (state world_connecting) > state_val wmngr_state_idle" "lock_taken env_ok"
    by (simp_all add: world_connecting_def world_idle_def env_ok_def)
  have b: "state_val (state world_idle) \<le> state_val wmngr_state_idle" "current world_idle = cfg_factory"
    by (simp_all add: world_idle_def)
  from a get_cfg_contract [of world_connecting env_ok cfg_factory]
  have 1: "esp_wmngr_get_cfg env_ok cfg_factory world_connecting = (ESP_ERR_INVALID_STATE, cfg_factory)"
    by simp
  from a b get_cfg_contract [of world_idle env_ok cfg_sta_home]
  have "fst (esp_wmngr_get_cfg env_ok cfg_sta_home world_idle) = ESP_OK \<and>
        snd (esp_wmngr_get_cfg env_ok cfg_sta_home world_idle) = cfg_factory"
    by simp
  then have 2: "esp_wmngr_get_cfg env_ok cfg_sta_home world_idle = (ESP_OK, cfg_factory)"
    by (metis prod.collapse)
  from 1 2 show ?thesis by simp
qed

text \<open>
  C9 as stated fails: when the lock is not obtained within \<open>CFG_DELAY\<close> the call returns
  \<open>ESP_ERR_TIMEOUT\<close>, not \<open>ESP_ERR_INVALID_STATE\<close>.
\<close>

theorem get_cfg_counterexample:
  "state_val (state world_connecting) > state_val wmngr_state_idle \<and>
   esp_wmngr_get_cfg env_no_lock cfg_factory world_connecting = (ESP_ERR_TIMEOUT, cfg_factory) \<and>
   ESP_ERR_TIMEOUT \<noteq> ESP_ERR_INVALID_STATE"
  by (simp add: esp_wmngr_get_cfg_def env_no_lock_def env_ok_def world_connecting_def
      world_idle_def)

section \<open>Setting a configuration in a stable state\<close>

lemma sta_connected_upd:
  "sta_connected (w\<lparr>saved := c\<rparr>) = sta_connected w"
  "sta_connected (w\<lparr>new := c\<rparr>) = sta_connected w"
  "sta_connected (w\<lparr>state := s\<rparr>) = sta_connected w"
  "sta_connected (w\<lparr>calls := cs\<rparr>) = sta_connected w"
  by (simp_all add: sta_connected_def)

lemma set_cfg_stable_eq:
  assumes "lock_taken e" and "state_val (state w) \<le> state_val wmngr_state_idle"
    and "get_wifi_cfg P (e_get e) w = (ESP_OK, snap)"
  shows "esp_wmngr_set_cfg P e X w =
    (let S = (if sta_connected w then snap else snap\<lparr>sta := zeroes (SIZEOF_WIFI_CONFIG P)\<rparr>);
         w1 = w\<lparr>saved := S, new := X\<lparr>is_default := False\<rparr>\<rparr>
     in if config_changed P (X\<lparr>is_default := False\<rparr>) S
        then (if timer_pass e
              then (ESP_OK, log_calls [XTimerChangePeriod (CFG_DELAY P)]
                              (w1\<lparr>state := wmngr_state_update\<rparr>))
              else (ESP_ERR_TIMEOUT, (log_calls [XTimerChangePeriod (CFG_DELAY P)]
                              (w1\<lparr>state := wmngr_state_update\<rparr>))\<lparr>state := wmngr_state_failed\<rparr>))
        else (ESP_OK, w1))"
proof (cases "sta_connected w")
  case True
  with assms show ?thesis
    by (simp add: esp_wmngr_set_cfg_def Let_def sta_connected_upd del: state_val.simps)
next
  case False
  with assms show ?thesis
    by (simp add: esp_wmngr_set_cfg_def Let_def sta_connected_upd del: state_val.simps)
qed

lemma get_wifi_cfg_dhcp:
  assumes "fst (get_mode_r ge) = ESP_OK" "fst (get_config_sta_r ge) = ESP_OK"
    "dhcpc_get_status_r ge = (ESP_OK, TCPIP_ADAPTER_DHCP_STARTED)"
    "fst (get_config_ap_r ge) = ESP_OK"
  shows "get_wifi_cfg P ge w = (ESP_OK, (zero_cfg P)\<lparr>sta_connect := sta_connected w,
           mode := snd (get_mode_r ge), sta := snd (get_config_sta_r ge),
           ap := snd (get_config_ap_r ge)\<rparr>)"
  using assms by (simp add: get_wifi_cfg_def Let_def)

lemma world_idle_not_connected: "\<not> sta_connected world_idle"
  by (simp add: sta_connected_def world_idle_def)

lemma snapshot_env_ok:
  "get_wifi_cfg esp32_platform (e_get env_ok) world_idle
     = (ESP_OK, (zero_cfg esp32_platform)\<lparr>mode := WIFI_MODE_APSTA\<rparr>)"
  using world_idle_not_connected
  by (simp add: get_wifi_cfg_dhcp env_ok_def zero_cfg_def esp32_platform_def)

lemma snapshot_env_sta_configured:
  "get_wifi_cfg esp32_platform (e_get env_sta_configured) world_idle = (ESP_OK, cfg_radio_home)"
  using world_idle_not_connected
  by (simp add: get_wifi_cfg_dhcp env_sta_configured_def env_ok_def cfg_radio_home_def
      zero_cfg_def esp32_platform_def)

lemma ssid_home_not_zero: "memcmp_ne ssid_home (zeroes 124) 124"
proof -
  have a: "take 124 ssid_home ! 0 = 104"
    by (simp add: ssid_home_def)
  have b: "take 124 (zeroes 124) ! 0 = (0 :: 8 word)"
    by (simp add: zeroes_def)
  have "take 124 ssid_home \<noteq> take 124 (zeroes 124)"
  proof
    assume "take 124 ssid_home = take 124 (zeroes 124)"
    then have "take 124 ssid_home ! 0 = take 124 (zeroes 124) ! 0" by simp
    with a b show False by simp
  qed
  then show ?thesis by (simp add: memcmp_ne_def)
qed

text \<open>
  C10 (as amended).  For every call \<open>esp_wmngr_set_cfg X\<close> in a stable state in which the
  lock is obtained and the radio snapshot succeeds: let \<open>S\<close> be the snapshot, with its
  station section zeroed if the station is not currently connected.  If \<open>X\<close> does not
  differ from \<open>S\<close> in mode, nor in the AP section when \<open>X\<close> is AP-bearing, nor in the
  station section when \<open>X\<close> is STA-bearing, then the call returns \<open>ESP_OK\<close>, the state
  is unchanged and no wake-up is armed, yet \<open>saved\<close> is overwritten by \<open>S\<close> and \<open>new\<close> by
  \<open>X\<close> with \<open>is_default\<close> forced to false.
\<close>

theorem set_cfg_unchanged:
  assumes "lock_taken e" and "state_val (state w) \<le> state_val wmngr_state_idle"
    and "get_wifi_cfg P (e_get e) w = (ESP_OK, snap)"
    and "S = (if sta_connected w then snap else snap\<lparr>sta := zeroes (SIZEOF_WIFI_CONFIG P)\<rparr>)"
    and "mode X = mode S"
    and "mode X = WIFI_MODE_AP \<or> mode X = WIFI_MODE_APSTA
           \<longrightarrow> \<not> memcmp_ne (ap X) (ap S) (SIZEOF_WIFI_CONFIG P)"
    and "mode X = WIFI_MODE_STA \<or> mode X = WIFI_MODE_APSTA
           \<longrightarrow> \<not> memcmp_ne (sta X) (sta S) (SIZEOF_WIFI_CONFIG P)"
  shows "esp_wmngr_set_cfg P e X w = (ESP_OK, w\<lparr>saved := S, new := X\<lparr>is_default := False\<rparr>\<rparr>)"
proof -
  have "\<not> config_changed P (X\<lparr>is_default := False\<rparr>) S"
    using assms(5,6,7) by (auto simp add: config_changed_def)
  then show ?thesis
    unfolding set_cfg_stable_eq [OF assms(1,2,3)] Let_def assms(4) [symmetric] by simp
qed

theorem set_cfg_unchanged_witness:
  "esp_wmngr_set_cfg esp32_platform env_ok cfg_factory world_idle
     = (ESP_OK, world_idle\<lparr>saved := (zero_cfg esp32_platform)\<lparr>mode := WIFI_MODE_APSTA\<rparr>,
                          new := cfg_factory\<lparr>is_default := False\<rparr>\<rparr>)"
proof -
  let ?S = "(zero_cfg esp32_platform)\<lparr>mode := WIFI_MODE_APSTA\<rparr>"
  have a: "lock_taken env_ok" "state_val (state world_idle) \<le> state_val wmngr_state_idle"
    by (simp_all add: env_ok_def world_idle_def)
  have s: "?S = (if sta_connected world_idle then ?S
            else ?S\<lparr>sta := zeroes (SIZEOF_WIFI_CONFIG esp32_platform)\<rparr>)"
    using world_idle_not_connected by (simp add: zero_cfg_def)
  have m: "mode cfg_factory = mode ?S"
    "\<not> memcmp_ne (ap cfg_factory) (ap ?S) (SIZEOF_WIFI_CONFIG esp32_platform)"
    "\<not> memcmp_ne (sta cfg_factory) (sta ?S) (SIZEOF_WIFI_CONFIG esp32_platform)"
    by (simp_all add: cfg_factory_def zero_cfg_def memcmp_ne_def)
  show ?thesis
    using set_cfg_unchanged [OF a snapshot_env_ok s m(1)] m(2,3) by simp
qed

text \<open>
  C10 as stated fails: the comparison is made with \<open>saved\<close> after its station section
  has been zeroed.  With a station that is configured but not connected, an \<open>X\<close> equal
  to the radio snapshot differs from the zeroed station section, so the update is
  triggered: the state becomes \<open>update\<close> and the wake-up is armed.
\<close>

theorem set_cfg_same_as_radio_counterexample:
  "state world_idle = wmngr_state_idle \<and>
   get_wifi_cfg esp32_platform (e_get env_sta_configured) world_idle = (ESP_OK, cfg_radio_home) \<and>
   esp_wmngr_set_cfg esp32_platform env_sta_configured cfg_radio_home world_idle
     = (ESP_OK, world_idle\<lparr>saved := cfg_radio_home\<lparr>sta := zeroes 124\<rparr>,
                          new := cfg_radio_home, state := wmngr_state_update,
                          calls := [XTimerChangePeriod 10]\<rparr>)"
proof -
  have l: "lock_taken env_sta_configured" "timer_pass env_sta_configured"
    by (simp_all add: env_sta_configured_def env_ok_def)
  have i: "state_val (state world_idle) \<le> state_val wmngr_state_idle" "calls world_idle = []"
    "state world_idle = wmngr_state_idle"
    by (simp_all add: world_idle_def)
  have sz: "SIZEOF_WIFI_CONFIG esp32_platform = 124" "CFG_DELAY esp32_platform = 10"
    by (simp_all add: esp32_platform_def CFG_DELAY_def)
  have st: "sta cfg_radio_home = ssid_home" "mode cfg_radio_home = WIFI_MODE_APSTA"
    "cfg_radio_home\<lparr>is_default := False\<rparr> = cfg_radio_home"
    by (simp_all add: cfg_radio_home_def zero_cfg_def)
  have ch: "config_changed esp32_platform cfg_radio_home (cfg_radio_home\<lparr>sta := zeroes 124\<rparr>)"
    using ssid_home_not_zero by (simp add: config_changed_def sz st)
  show ?thesis
    using l i world_idle_not_connected ch
    by (simp add: set_cfg_stable_eq [OF l(1) i(1) snapshot_env_sta_configured] Let_def sz st
        log_calls_def snapshot_env_sta_configured)
qed

section \<open>From a request to the connected state\<close>

lemma on_exit_events: "wifi_events (on_exit e (w, d)) = wifi_events w"
  by (simp add: on_exit_def log_calls_def Let_def)

lemma set_cfg_ok_new:
  assumes "esp_wmngr_set_cfg P e X w = (ESP_OK, w1)"
  shows "new w1 = X\<lparr>is_default := False\<rparr> \<and> nvs w1 = nvs w"
proof -
  have l: "lock_taken e" and s: "state_val (state w) \<le> state_val wmngr_state_idle"
    using assms by (auto simp add: esp_wmngr_set_cfg_def split: if_splits)
  obtain r snap where g: "get_wifi_cfg P (e_get e) w = (r, snap)"
    by (cases "get_wifi_cfg P (e_get e) w")
  have "r = ESP_OK"
    using assms l s g by (auto simp add: esp_wmngr_set_cfg_def Let_def split: if_splits)
  with g have g': "get_wifi_cfg P (e_get e) w = (ESP_OK, snap)" by simp
  show ?thesis
    using assms unfolding set_cfg_stable_eq [OF l s g'] Let_def
    by (auto simp add: log_calls_def split: if_splits)
qed

lemma handle_wifi_update_new:
  assumes "state w = wmngr_state_update"
    and "state (handle_wifi P e w) = wmngr_state_connecting"
  shows "new (handle_wifi P e w)
           = (if mode (new w) = WIFI_MODE_APSTA \<or> mode (new w) = WIFI_MODE_AP
              then (new w)\<lparr>ap := set_max_connection P (ap (new w))\<rparr> else new w) \<and>
         nvs (handle_wifi P e w) = nvs w"
proof -
  have l: "lock_taken e"
  proof (rule ccontr)
    assume "\<not> lock_taken e"
    then have "handle_wifi P e w = log_calls [XTimerChangePeriod (CFG_DELAY P)] w"
      by (simp add: handle_wifi_def)
    with assms show False by (simp add: log_calls_def)
  qed
  have m: "fst (wifi_get_mode_r e) = ESP_OK"
  proof (rule ccontr)
    assume "fst (wifi_get_mode_r e) \<noteq> ESP_OK"
    from handle_wifi_get_mode_fails [OF l this, of P w] assms show False by simp
  qed
  let ?w0 = "log_calls [Esp_wifi_scan_stop, Esp_wifi_disconnect] w"
  let ?res = "set_wifi_cfg P (e_set e) (new w) ?w0"
  let ?w1 = "(snd (snd ?res))\<lparr>new := fst (snd ?res)\<rparr>"
  let ?sv = "scan_service P e (wifi_events w) 0 (?w1\<lparr>state := wmngr_state_idle\<rparr>)"
  have "handle_wifi P e w = on_exit e (?w1\<lparr>state := wmngr_state_fallback\<rparr>, CFG_DELAY P)
      \<or> handle_wifi P e w = on_exit e (fst ?sv, snd ?sv)
      \<or> handle_wifi P e w = on_exit e (?w1\<lparr>cfg_timestamp := tick_count e,
                                           state := wmngr_state_connecting\<rparr>, CFG_TICKS P)"
    unfolding handle_wifi_update_eq [OF assms(1) l m] Let_def by simp
  then have "new (handle_wifi P e w) = fst (snd ?res) \<and> nvs (handle_wifi P e w) = nvs ?w0"
    using on_exit_frame [of e "?w1\<lparr>state := wmngr_state_fallback\<rparr>" "CFG_DELAY P"]
      on_exit_frame [of e "fst ?sv" "snd ?sv"]
      on_exit_frame [of e "?w1\<lparr>cfg_timestamp := tick_count e,
                                           state := wmngr_state_connecting\<rparr>" "CFG_TICKS P"]
      scan_service_fields [of P e "wifi_events w" 0 "?w1\<lparr>state := wmngr_state_idle\<rparr>"]
      set_wifi_cfg_frame [of P "e_set e" "new w" ?w0]
    by auto
  then show ?thesis
    by (simp add: set_wifi_cfg_cfg log_calls_def)
qed

lemma run_set_cfg_eq:
  "esp_wmngr_set_cfg esp32_platform env_ok cfg_sta_home world_idle = (ESP_OK, run_set_cfg)"
  "state run_set_cfg = wmngr_state_update"
  "new run_set_cfg = cfg_sta_home"
  "wifi_events run_set_cfg = 0"
proof -
  have l: "lock_taken env_ok" "timer_pass env_ok"
    and i: "state_val (state world_idle) \<le> state_val wmngr_state_idle"
    by (simp_all add: env_ok_def world_idle_def)
  have ch: "config_changed esp32_platform (cfg_sta_home\<lparr>is_default := False\<rparr>)
              ((zero_cfg esp32_platform)\<lparr>mode := WIFI_MODE_APSTA,
                   sta := zeroes (SIZEOF_WIFI_CONFIG esp32_platform)\<rparr>)"
    by (simp add: config_changed_def cfg_sta_home_def WIFI_MODE_STA_def WIFI_MODE_APSTA_def)
  have eq: "esp_wmngr_set_cfg esp32_platform env_ok cfg_sta_home world_idle
      = (ESP_OK, log_calls [XTimerChangePeriod (CFG_DELAY esp32_platform)]
           (world_idle\<lparr>saved := (zero_cfg esp32_platform)\<lparr>mode := WIFI_MODE_APSTA,
                             sta := zeroes (SIZEOF_WIFI_CONFIG esp32_platform)\<rparr>,
                        new := cfg_sta_home\<lparr>is_default := False\<rparr>,
                        state := wmngr_state_update\<rparr>))"
    using l world_idle_not_connected ch
    by (simp add: set_cfg_stable_eq [OF l(1) i snapshot_env_ok] Let_def)
  then show "esp_wmngr_set_cfg esp32_platform env_ok cfg_sta_home world_idle = (ESP_OK, run_set_cfg)"
    by (simp add: run_set_cfg_def)
  from eq show "state run_set_cfg = wmngr_state_update"
    by (simp add: run_set_cfg_def log_calls_def)
  from eq show "new run_set_cfg = cfg_sta_home"
    by (simp add: run_set_cfg_def log_calls_def cfg_sta_home_def zero_cfg_def)
  from eq show "wifi_events run_set_cfg = 0"
    by (simp add: run_set_cfg_def log_calls_def world_idle_def)
qed

lemma run_update_eq:
  "state run_update = wmngr_state_connecting"
  "new run_update = cfg_sta_home"
  "wifi_events run_update = 0"
proof -
  have l: "lock_taken env_ok" "timer_pass env_ok" "fst (wifi_get_mode_r env_ok) = ESP_OK"
    by (simp_all add: env_ok_def)
  let ?w0 = "log_calls [Esp_wifi_scan_stop, Esp_wifi_disconnect] run_set_cfg"
  let ?res = "set_wifi_cfg esp32_platform (e_set env_ok) cfg_sta_home ?w0"
  let ?w1 = "(snd (snd ?res))\<lparr>new := fst (snd ?res)\<rparr>"
  have c: "\<not> sta_static cfg_sta_home" "sta_connect cfg_sta_home" "mode cfg_sta_home = WIFI_MODE_STA"
    "WIFI_MODE_STA \<noteq> WIFI_MODE_AP" "WIFI_MODE_STA \<noteq> WIFI_MODE_APSTA"
    by (simp_all add: cfg_sta_home_def zero_cfg_def WIFI_MODE_STA_def WIFI_MODE_AP_def
        WIFI_MODE_APSTA_def)
  have r: "fst ?res = ESP_OK"
    using c by (simp add: set_wifi_cfg_result env_ok_def)
  have eq: "run_update = on_exit env_ok
       (?w1\<lparr>cfg_timestamp := tick_count env_ok, state := wmngr_state_connecting\<rparr>,
        CFG_TICKS esp32_platform)"
    unfolding run_update_def handle_wifi_update_eq [OF run_set_cfg_eq(2) l(1,3)] Let_def
    using r c by (simp add: run_set_cfg_eq(3))
  show "state run_update = wmngr_state_connecting"
    using on_exit_frame [of env_ok "?w1\<lparr>cfg_timestamp := tick_count env_ok,
        state := wmngr_state_connecting\<rparr>" "CFG_TICKS esp32_platform"] l
    by (simp add: eq)
  show "new run_update = cfg_sta_home"
    using on_exit_frame [of env_ok "?w1\<lparr>cfg_timestamp := tick_count env_ok,
        state := wmngr_state_connecting\<rparr>" "CFG_TICKS esp32_platform"] c
    by (simp add: eq set_wifi_cfg_cfg)
  show "wifi_events run_update = 0"
    using set_wifi_cfg_frame [of esp32_platform "e_set env_ok" cfg_sta_home ?w0]
    by (simp add: eq on_exit_events log_calls_def run_set_cfg_eq(4))
qed

lemma connected_bit_nonzero: "BIT_STA_CONNECTED \<noteq> 0"
  by (simp add: BIT_STA_CONNECTED_def)

lemma run_sta_connected_eq:
  "state run_sta_connected = wmngr_state_connecting"
  "new run_sta_connected = cfg_sta_home"
  "wifi_events run_sta_connected = BIT_STA_CONNECTED"
  "sta_connected run_sta_connected"
proof -
  have eq: "run_sta_connected = log_calls [XTimerChangePeriod (CFG_DELAY esp32_platform)]
              (xEventGroupSetBits BIT_STA_CONNECTED run_update)"
    using connected_bit_nonzero
    by (simp add: run_sta_connected_def event_handler_def wifi_event_bits_def Let_def
        xEventGroupSetBits_def run_update_eq(3) esp32_platform_def)
  show "state run_sta_connected = wmngr_state_connecting"
    by (simp add: eq log_calls_def xEventGroupSetBits_def run_update_eq)
  show "new run_sta_connected = cfg_sta_home"
    by (simp add: eq log_calls_def xEventGroupSetBits_def run_update_eq)
  show ev: "wifi_events run_sta_connected = BIT_STA_CONNECTED"
    by (simp add: eq log_calls_def xEventGroupSetBits_def run_update_eq)
  show "sta_connected run_sta_connected"
    using connected_bit_nonzero by (simp add: sta_connected_def ev)
qed

lemma save_all_ok: "fst (save_config P nvs_all_ok cfg st) = ESP_OK"
  by (simp add: save_config_def nvs_all_ok_def nvs_erase_all_def write_fields_def
      nvs_set_u32_def nvs_set_blob_def)

lemma save_second_write_fails:
  "save_config esp32_platform nvs_second_write_fails cfg_sta_home st = (ESP_FAIL, Map.empty)"
  by (simp add: save_config_def nvs_second_write_fails_def nvs_all_ok_def nvs_erase_all_def
      cfg_sta_home_def zero_cfg_def write_fields_def nvs_set_u32_def nvs_set_blob_def)

lemma transitional_val:
  "state w = wmngr_state_update \<or> state w = wmngr_state_connecting
     \<Longrightarrow> state_val (state w) > state_val wmngr_state_idle"
  by auto

lemma event_handler_keeps:
  "new (event_handler P t ev w) = new w \<and> nvs (event_handler P t ev w) = nvs w \<and>
   (state (event_handler P t ev w) = state w
      \<or> state (event_handler P t ev w) = wmngr_state_failed)"
  by (simp add: event_handler_def wifi_event_bits_def ip_event_bits_def
      xEventGroupSetBits_def xEventGroupClearBits_def log_calls_def Let_def
      split: event.splits wifi_event_t.splits ip_event_t.splits)

lemma busy_call_keeps:
  assumes "state_val (state w) > state_val wmngr_state_idle"
  shows "snd (esp_wmngr_set_cfg P e X w) = w"
    and "snd (esp_wmngr_start_wps P e w) = w"
    and "snd (set_connect P e1 e2 c w) = w"
  using assms
  by (simp_all add: esp_wmngr_set_cfg_def esp_wmngr_start_wps_def set_connect_def
      esp_wmngr_get_cfg_def)

lemma start_scan_keeps:
  "new (snd (esp_wmngr_start_scan P t w)) = new w \<and>
   nvs (snd (esp_wmngr_start_scan P t w)) = nvs w \<and>
   (state (snd (esp_wmngr_start_scan P t w)) = state w
      \<or> state (snd (esp_wmngr_start_scan P t w)) = wmngr_state_failed)"
  by (simp add: esp_wmngr_start_scan_def xEventGroupSetBits_def log_calls_def Let_def)

lemma get_scan_keeps:
  "cfg_part (snd (esp_wmngr_get_scan l w)) = cfg_part w"
  using kref_get_frame by (simp add: esp_wmngr_get_scan_def split: option.splits)

lemma put_scan_keeps:
  "cfg_part (esp_wmngr_put_scan a w) = cfg_part w"
  using kref_put_frame [of a w] by (simp add: esp_wmngr_put_scan_def)

text \<open>Everything but a state-machine step keeps new and either keeps the state or sets failed.\<close>

lemma perform_other_keeps:
  assumes "state w = wmngr_state_update \<or> state w = wmngr_state_connecting"
    and "\<And>e. a \<noteq> Timer_step e"
  shows "new (perform P a w) = new w \<and>
         (state (perform P a w) = state w \<or> state (perform P a w) = wmngr_state_failed)"
proof (cases a)
  case (Timer_step e)
  with assms(2) [of e] show ?thesis by simp
next
  case (Driver_event t ev)
  with event_handler_keeps [of P t ev w] show ?thesis by simp
next
  case (Call_set_cfg e X)
  with busy_call_keeps(1) [OF transitional_val [OF assms(1)]] show ?thesis by simp
next
  case (Call_start_wps e)
  with busy_call_keeps(2) [OF transitional_val [OF assms(1)]] show ?thesis by simp
next
  case (Call_connect e1 e2)
  with busy_call_keeps(3) [OF transitional_val [OF assms(1)]] show ?thesis
    by (simp add: esp_wmngr_connect_def)
next
  case (Call_disconnect e1 e2)
  with busy_call_keeps(3) [OF transitional_val [OF assms(1)]] show ?thesis
    by (simp add: esp_wmngr_disconnect_def)
next
  case (Call_start_scan t)
  with start_scan_keeps [of P t w] show ?thesis by simp
next
  case (Call_get_scan l)
  with get_scan_keeps [of l w] show ?thesis by (simp add: cfg_part_def)
next
  case (Call_put_scan b)
  with put_scan_keeps [of b w] show ?thesis by (simp add: cfg_part_def)
qed

lemma on_exit_state:
  "state (on_exit e (w, d)) = state w \<or> state (on_exit e (w, d)) = wmngr_state_failed"
  by (simp add: on_exit_frame)

lemma handle_wifi_no_lock:
  "\<not> lock_taken e \<Longrightarrow> handle_wifi P e w = log_calls [XTimerChangePeriod (CFG_DELAY P)] w"
  by (simp add: handle_wifi_def)

lemma handle_wifi_connecting_wait_eq:
  assumes "state w = wmngr_state_connecting" "lock_taken e" "fst (wifi_get_mode_r e) = ESP_OK"
    "\<not> sta_connected w"
  shows "handle_wifi P e w =
     on_exit e (if time_after (tick_count e) (cfg_timestamp w + CFG_TIMEOUT P)
                then (w\<lparr>state := wmngr_state_fallback\<rparr>, CFG_DELAY P)
                else (w, CFG_TICKS P))"
  using assms
  by (simp add: handle_wifi_def dispatch_def step_connecting_def Let_def
      scan_service_transitional)

lemma timer_step_update:
  assumes "state w = wmngr_state_update"
  shows "state (handle_wifi P e w) \<noteq> wmngr_state_connected"
    and "state (handle_wifi P e w) = wmngr_state_update \<Longrightarrow> new (handle_wifi P e w) = new w"
    and "state (handle_wifi P e w) = wmngr_state_connecting
           \<Longrightarrow> new (handle_wifi P e w) = applied_cfg P (new w)"
proof -
  show "state (handle_wifi P e w) = wmngr_state_connecting
           \<Longrightarrow> new (handle_wifi P e w) = applied_cfg P (new w)"
    using handle_wifi_update_new [OF assms, of P e] by (simp add: applied_cfg_def)
  have "state (handle_wifi P e w) \<noteq> wmngr_state_connected \<and>
        (state (handle_wifi P e w) = wmngr_state_update \<longrightarrow> new (handle_wifi P e w) = new w)"
  proof (cases "lock_taken e")
    case False
    with assms show ?thesis by (simp add: handle_wifi_no_lock log_calls_def)
  next
    case l: True
    show ?thesis
    proof (cases "fst (wifi_get_mode_r e) = ESP_OK")
      case False
      from handle_wifi_get_mode_fails [OF l this, of P w] show ?thesis by simp
    next
      case m: True
      let ?w0 = "log_calls [Esp_wifi_scan_stop, Esp_wifi_disconnect] w"
      let ?res = "set_wifi_cfg P (e_set e) (new w) ?w0"
      let ?w1 = "(snd (snd ?res))\<lparr>new := fst (snd ?res)\<rparr>"
      let ?sv = "scan_service P e (wifi_events w) 0 (?w1\<lparr>state := wmngr_state_idle\<rparr>)"
      have "handle_wifi P e w = on_exit e (?w1\<lparr>state := wmngr_state_fallback\<rparr>, CFG_DELAY P)
          \<or> handle_wifi P e w = on_exit e (fst ?sv, snd ?sv)
          \<or> handle_wifi P e w = on_exit e (?w1\<lparr>cfg_timestamp := tick_count e,
                                               state := wmngr_state_connecting\<rparr>, CFG_TICKS P)"
        unfolding handle_wifi_update_eq [OF assms l m] Let_def by simp
      then consider
          (a) "handle_wifi P e w = on_exit e (?w1\<lparr>state := wmngr_state_fallback\<rparr>, CFG_DELAY P)"
        | (b) "handle_wifi P e w = on_exit e (fst ?sv, snd ?sv)"
        | (c) "handle_wifi P e w = on_exit e (?w1\<lparr>cfg_timestamp := tick_count e,
                                               state := wmngr_state_connecting\<rparr>, CFG_TICKS P)"
        by blast
      then have "state (handle_wifi P e w) \<in> {wmngr_state_fallback, wmngr_state_idle,
                    wmngr_state_connecting, wmngr_state_failed}"
      proof cases
        case a
        then show ?thesis
          using on_exit_state [of e "?w1\<lparr>state := wmngr_state_fallback\<rparr>" "CFG_DELAY P"]
          by auto
      next
        case b
        have "state (fst ?sv) = wmngr_state_idle"
          using scan_service_fields [of P e "wifi_events w" 0 "?w1\<lparr>state := wmngr_state_idle\<rparr>"]
          by simp
        with b show ?thesis
          using on_exit_state [of e "fst ?sv" "snd ?sv"] by auto
      next
        case c
        then show ?thesis
          using on_exit_state [of e "?w1\<lparr>cfg_timestamp := tick_count e,
                                               state := wmngr_state_connecting\<rparr>" "CFG_TICKS P"]
          by auto
      qed
      then show ?thesis by auto
    qed
  qed
  then show "state (handle_wifi P e w) \<noteq> wmngr_state_connected"
    and "state (handle_wifi P e w) = wmngr_state_update \<Longrightarrow> new (handle_wifi P e w) = new w"
    by simp_all
qed

lemma timer_step_connecting:
  assumes "state w = wmngr_state_connecting"
  shows "state (handle_wifi P e w) \<noteq> wmngr_state_update"
    and "new (handle_wifi P e w) = new w"
    and "state (handle_wifi P e w) = wmngr_state_connected
           \<Longrightarrow> lock_taken e \<and> sta_connected w \<and>
               nvs (handle_wifi P e w) = snd (save_config P (e_nvs e) (new w) (nvs w))"
proof -
  have "state (handle_wifi P e w) \<noteq> wmngr_state_update \<and>
        new (handle_wifi P e w) = new w \<and>
        (state (handle_wifi P e w) = wmngr_state_connected
           \<longrightarrow> lock_taken e \<and> sta_connected w \<and>
               nvs (handle_wifi P e w) = snd (save_config P (e_nvs e) (new w) (nvs w)))"
  proof (cases "lock_taken e")
    case False
    with assms show ?thesis by (simp add: handle_wifi_no_lock log_calls_def)
  next
    case l: True
    show ?thesis
    proof (cases "fst (wifi_get_mode_r e) = ESP_OK")
      case False
      from handle_wifi_get_mode_fails [OF l this, of P w] show ?thesis by simp
    next
      case m: True
      show ?thesis
      proof (cases "sta_connected w")
        case True
        let ?w = "w\<lparr>state := wmngr_state_connected,
                     nvs := snd (save_config P (e_nvs e) (new w) (nvs w))\<rparr>"
        let ?sc = "scan_service P e (wifi_events w) 0 ?w"
        have eq: "handle_wifi P e w = on_exit e (fst ?sc, snd ?sc)"
          using handle_wifi_connecting_eq [OF assms l m True, of P] by simp
        show ?thesis
          using on_exit_frame [of e "fst ?sc" "snd ?sc"]
            scan_service_fields [of P e "wifi_events w" 0 ?w] l True
          by (simp add: eq)
      next
        case False
        show ?thesis
          using on_exit_frame [of e "w\<lparr>state := wmngr_state_fallback\<rparr>" "CFG_DELAY P"]
            on_exit_frame [of e w "CFG_TICKS P"] assms
          by (simp add: handle_wifi_connecting_wait_eq [OF assms l m False])
      qed
    qed
  qed
  then show "state (handle_wifi P e w) \<noteq> wmngr_state_update"
    and "new (handle_wifi P e w) = new w"
    and "state (handle_wifi P e w) = wmngr_state_connected
           \<Longrightarrow> lock_taken e \<and> sta_connected w \<and>
               nvs (handle_wifi P e w) = snd (save_config P (e_nvs e) (new w) (nvs w))"
    by simp_all
qed

lemma pend_transitional:
  "pend P X0 w \<Longrightarrow> state w = wmngr_state_update \<or> state w = wmngr_state_connecting"
  by (auto simp add: pend_def)

lemma perform_pend:
  assumes "pend P X0 w"
    and "state (perform P a w) = wmngr_state_update
         \<or> state (perform P a w) = wmngr_state_connecting"
  shows "pend P X0 (perform P a w)"
proof (cases "\<exists>e. a = Timer_step e")
  case True
  then obtain e where a: "a = Timer_step e" by blast
  show ?thesis
  proof (cases "state w = wmngr_state_update")
    case True
    with assms(1) have n: "new w = X0" by (auto simp add: pend_def)
    from timer_step_update(2,3) [OF True, of P e] assms(2) n a show ?thesis
      by (auto simp add: pend_def)
  next
    case False
    with assms(1) have c: "state w = wmngr_state_connecting" "new w = applied_cfg P X0"
      by (auto simp add: pend_def)
    from timer_step_connecting(1,2) [OF c(1), of P e] assms(2) c(2) a show ?thesis
      by (auto simp add: pend_def)
  qed
next
  case False
  then have "\<And>e. a \<noteq> Timer_step e" by blast
  from perform_other_keeps [OF pend_transitional [OF assms(1)] this, of P] assms
  show ?thesis by (auto simp add: pend_def)
qed

lemma perform_connected:
  assumes "pend P X0 w" and "state (perform P a w) = wmngr_state_connected"
  shows "\<exists>e. a = Timer_step e \<and> state w = wmngr_state_connecting \<and> sta_connected w \<and>
             lock_taken e \<and>
             new (perform P a w) = applied_cfg P X0 \<and>
             nvs (perform P a w) = snd (save_config P (e_nvs e) (applied_cfg P X0) (nvs w))"
proof (cases "\<exists>e. a = Timer_step e")
  case True
  then obtain e where a: "a = Timer_step e" by blast
  show ?thesis
  proof (cases "state w = wmngr_state_update")
    case True
    from timer_step_update(1) [OF True, of P e] assms(2) a show ?thesis by simp
  next
    case False
    with assms(1) have c: "state w = wmngr_state_connecting" "new w = applied_cfg P X0"
      by (auto simp add: pend_def)
    from timer_step_connecting(2,3) [OF c(1), of P e] assms(2) c a show ?thesis
      by simp
  qed
next
  case False
  then have "\<And>e. a \<noteq> Timer_step e" by blast
  from perform_other_keeps [OF pend_transitional [OF assms(1)] this, of P]
    pend_transitional [OF assms(1)] assms(2)
  show ?thesis by auto
qed

lemma run_connected:
  assumes "pend P X0 w" and "in_progress P acts w"
    and "state (run_wmngr P acts w) = wmngr_state_connected"
  shows "\<exists>pre e. acts = pre @ [Timer_step e] \<and>
           state (run_wmngr P pre w) = wmngr_state_connecting \<and>
           sta_connected (run_wmngr P pre w) \<and> lock_taken e \<and>
           new (run_wmngr P acts w) = applied_cfg P X0 \<and>
           nvs (run_wmngr P acts w)
             = snd (save_config P (e_nvs e) (applied_cfg P X0) (nvs (run_wmngr P pre w)))"
  using assms
proof (induction acts arbitrary: w)
  case Nil
  from pend_transitional [OF Nil(1)] Nil(3) show ?case by auto
next
  case (Cons a acts)
  show ?case
  proof (cases acts)
    case Nil
    with Cons.prems(3) have "state (perform P a w) = wmngr_state_connected" by simp
    from perform_connected [OF Cons.prems(1) this] Nil show ?thesis
      by (intro exI [of _ "[]"]) auto
  next
    case (Cons b bs)
    with Cons.prems(2) have t: "state (perform P a w) = wmngr_state_update
         \<or> state (perform P a w) = wmngr_state_connecting"
      and ip: "in_progress P acts (perform P a w)" by simp_all
    have p: "pend P X0 (perform P a w)" by (rule perform_pend [OF Cons.prems(1) t])
    from Cons.prems(3) have "state (run_wmngr P acts (perform P a w)) = wmngr_state_connected"
      by simp
    from Cons.IH [OF p ip this] obtain pre e where
      r: "acts = pre @ [Timer_step e]"
        "state (run_wmngr P pre (perform P a w)) = wmngr_state_connecting"
        "sta_connected (run_wmngr P pre (perform P a w))" "lock_taken e"
        "new (run_wmngr P acts (perform P a w)) = applied_cfg P X0"
        "nvs (run_wmngr P acts (perform P a w))
           = snd (save_config P (e_nvs e) (applied_cfg P X0)
                    (nvs (run_wmngr P pre (perform P a w))))"
      by blast
    show ?thesis
      using r by (intro exI [of _ "a # pre"] exI [of _ e]) simp
  qed
qed

lemma wf_cfg_applied_cfg:
  assumes "wf_cfg P X"
  shows "wf_cfg P (applied_cfg P (X\<lparr>is_default := False\<rparr>))"
    and "\<not> is_default (applied_cfg P (X\<lparr>is_default := False\<rparr>))"
  using assms by (simp_all add: applied_cfg_def wf_cfg_def set_max_connection_def)

lemma connect_run_states:
  "state (run_wmngr esp32_platform connect_run run_set_cfg) = wmngr_state_connected"
  "in_progress esp32_platform connect_run run_set_cfg"
proof -
  have r: "run_wmngr esp32_platform connect_run run_set_cfg
             = handle_wifi esp32_platform env_ok run_sta_connected"
    by (simp add: connect_run_def run_sta_connected_def run_update_def)
  have l: "lock_taken env_ok" "timer_pass env_ok" "fst (wifi_get_mode_r env_ok) = ESP_OK"
    by (simp_all add: env_ok_def)
  let ?w = "run_sta_connected\<lparr>state := wmngr_state_connected,
              nvs := snd (save_config esp32_platform (e_nvs env_ok)
                            (new run_sta_connected) (nvs run_sta_connected))\<rparr>"
  let ?sc = "scan_service esp32_platform env_ok (wifi_events run_sta_connected) 0 ?w"
  have eq: "handle_wifi esp32_platform env_ok run_sta_connected = on_exit env_ok (fst ?sc, snd ?sc)"
    using handle_wifi_connecting_eq [OF run_sta_connected_eq(1) l(1) l(3) run_sta_connected_eq(4),
        of esp32_platform] by simp
  show "state (run_wmngr esp32_platform connect_run run_set_cfg) = wmngr_state_connected"
    using on_exit_frame [of env_ok "fst ?sc" "snd ?sc"]
      scan_service_fields [of esp32_platform env_ok "wifi_events run_sta_connected" 0 ?w] l
    by (simp add: r eq)
  have s: "state (handle_wifi esp32_platform env_ok run_set_cfg) = wmngr_state_connecting"
    "state (event_handler esp32_platform True (WIFI_EVENT WIFI_EVENT_STA_CONNECTED)
              (handle_wifi esp32_platform env_ok run_set_cfg)) = wmngr_state_connecting"
    using run_update_eq(1) run_sta_connected_eq(1)
    by (simp_all add: run_update_def run_sta_connected_def)
  show "in_progress esp32_platform connect_run run_set_cfg"
    using s by (simp add: connect_run_def run_set_cfg_eq(2))
qed

text \<open>
  C4 (as amended).  In every execution in which \<open>esp_wmngr_set_cfg X\<close> returned
  \<open>ESP_OK\<close> and started an update, the state was \<open>update\<close> or \<open>connecting\<close> before each
  of the operations that followed, and \<open>esp_wmngr_get_state\<close> returns \<open>connected\<close> after
  the last of them: that last operation is a step of the state machine which held the
  lock, ran in state \<open>connecting\<close> and found the station connected; it set the state to
  \<open>connected\<close> and then called \<open>save_config\<close> for \<open>new\<close>, which is \<open>X\<close> with
  \<open>is_default\<close> false and, for an AP-bearing mode, \<open>ap.max_connection\<close> set to
  \<open>MAX_AP_CLIENTS\<close>.  When the step has returned, the store is what that \<open>save_config\<close>
  left: if it succeeded, the persisted configuration equals this \<open>new\<close>.
\<close>

theorem connected_after_set_cfg:
  assumes "esp_wmngr_set_cfg P e0 X w0 = (ESP_OK, w1)" and "state w1 = wmngr_state_update"
    and "in_progress P acts w1"
    and "esp_wmngr_get_state (run_wmngr P acts w1) = wmngr_state_connected"
    and "wf_cfg P X"
  shows "\<exists>pre e. acts = pre @ [Timer_step e] \<and>
           (let Xn = applied_cfg P (X\<lparr>is_default := False\<rparr>);
                w3 = run_wmngr P pre w1;
                w4 = run_wmngr P acts w1;
                sv = save_config P (e_nvs e) Xn (nvs w3)
            in state w3 = wmngr_state_connecting \<and> sta_connected w3 \<and> lock_taken e \<and>
               new w4 = Xn \<and> nvs w4 = snd sv \<and>
               (fst sv = ESP_OK \<longrightarrow> get_saved_config P ESP_OK (nvs w4) = (ESP_OK, Xn)))"
proof -
  let ?Xn = "applied_cfg P (X\<lparr>is_default := False\<rparr>)"
  have "new w1 = X\<lparr>is_default := False\<rparr>"
    using set_cfg_ok_new [OF assms(1)] by simp
  with assms(2) have p: "pend P (X\<lparr>is_default := False\<rparr>) w1" by (simp add: pend_def)
  from assms(4) have c: "state (run_wmngr P acts w1) = wmngr_state_connected"
    by (simp add: esp_wmngr_get_state_def)
  from run_connected [OF p assms(3) c] obtain pre e where
    r: "acts = pre @ [Timer_step e]"
      "state (run_wmngr P pre w1) = wmngr_state_connecting"
      "sta_connected (run_wmngr P pre w1)" "lock_taken e"
      "new (run_wmngr P acts w1) = ?Xn"
      "nvs (run_wmngr P acts w1) = snd (save_config P (e_nvs e) ?Xn (nvs (run_wmngr P pre w1)))"
    by blast
  let ?sv = "save_config P (e_nvs e) ?Xn (nvs (run_wmngr P pre w1))"
  have ld: "get_saved_config P ESP_OK (nvs (run_wmngr P acts w1)) = (ESP_OK, ?Xn)"
    if "fst ?sv = ESP_OK"
  proof -
    from that have "?sv = (ESP_OK, snd ?sv)" by (metis prod.collapse)
    from save_ok_loads [OF wf_cfg_applied_cfg [OF assms(5)] this] r(6) show ?thesis by simp
  qed
  show ?thesis
    using r ld by (intro exI [of _ pre] exI [of _ e]) (simp add: Let_def)
qed

theorem connected_after_set_cfg_witness:
  "esp_wmngr_get_state (run_wmngr esp32_platform connect_run run_set_cfg) = wmngr_state_connected \<and>
   get_saved_config esp32_platform ESP_OK (nvs (run_wmngr esp32_platform connect_run run_set_cfg))
     = (ESP_OK, cfg_sta_home)"
proof -
  have c: "applied_cfg esp32_platform (cfg_sta_home\<lparr>is_default := False\<rparr>) = cfg_sta_home"
    by (simp add: applied_cfg_def cfg_sta_home_def zero_cfg_def WIFI_MODE_STA_def WIFI_MODE_AP_def
        WIFI_MODE_APSTA_def)
  have g: "esp_wmngr_get_state (run_wmngr esp32_platform connect_run run_set_cfg)
             = wmngr_state_connected"
    using connect_run_states(1) by (simp add: esp_wmngr_get_state_def)
  from connected_after_set_cfg [OF run_set_cfg_eq(1) run_set_cfg_eq(2) connect_run_states(2) g
      wf_cfg_sta_home]
  obtain pre e where r: "connect_run = pre @ [Timer_step e]"
    and s: "fst (save_config esp32_platform (e_nvs e) cfg_sta_home
                   (nvs (run_wmngr esp32_platform pre run_set_cfg))) = ESP_OK
            \<longrightarrow> get_saved_config esp32_platform ESP_OK
                  (nvs (run_wmngr esp32_platform connect_run run_set_cfg)) = (ESP_OK, cfg_sta_home)"
    unfolding Let_def c by blast
  from r have "last connect_run = Timer_step e" by (metis last_snoc)
  then have "e = env_ok" by (simp add: connect_run_def)
  then have "e_nvs e = nvs_all_ok" by (simp add: env_ok_def)
  with s g save_all_ok show ?thesis by simp
qed

text \<open>
  C4 as stated fails: \<open>esp_wmngr_set_cfg\<close> returned \<open>ESP_OK\<close>, the step in state
  \<open>connecting\<close> sets \<open>connected\<close> before it calls \<open>save_config\<close> and only logs a failure
  of the save; with a failing field write \<open>esp_wmngr_get_state\<close> returns \<open>connected\<close>
  while the store is empty.
\<close>

theorem connected_not_persisted_counterexample:
  "esp_wmngr_set_cfg esp32_platform env_ok cfg_sta_home world_idle = (ESP_OK, run_set_cfg) \<and>
   run_update = handle_wifi esp32_platform env_ok run_set_cfg \<and>
   run_sta_connected
     = event_handler esp32_platform True (WIFI_EVENT WIFI_EVENT_STA_CONNECTED) run_update \<and>
   esp_wmngr_get_state (handle_wifi esp32_platform env_save_fails run_sta_connected)
     = wmngr_state_connected \<and>
   nvs (handle_wifi esp32_platform env_save_fails run_sta_connected) = Map.empty \<and>
   get_saved_config esp32_platform ESP_OK
       (nvs (handle_wifi esp32_platform env_save_fails run_sta_connected))
     = (ESP_ERR_NVS_NOT_FOUND, zero_cfg esp32_platform)"
proof -
  have l: "lock_taken env_save_fails" "timer_pass env_save_fails"
    "fst (wifi_get_mode_r env_save_fails) = ESP_OK"
    "e_nvs env_save_fails = nvs_second_write_fails"
    by (simp_all add: env_save_fails_def env_ok_def)
  let ?w = "run_sta_connected\<lparr>state := wmngr_state_connected,
              nvs := snd (save_config esp32_platform (e_nvs env_save_fails)
                            (new run_sta_connected) (nvs run_sta_connected))\<rparr>"
  let ?sc = "scan_service esp32_platform env_save_fails (wifi_events run_sta_connected) 0 ?w"
  have eq: "handle_wifi esp32_platform env_save_fails run_sta_connected
              = on_exit env_save_fails (fst ?sc, snd ?sc)"
    using handle_wifi_connecting_eq [OF run_sta_connected_eq(1) l(1) l(3) run_sta_connected_eq(4),
        of esp32_platform] by simp
  have st: "state (handle_wifi esp32_platform env_save_fails run_sta_connected)
              = wmngr_state_connected"
    using on_exit_frame [of env_save_fails "fst ?sc" "snd ?sc"]
      scan_service_fields [of esp32_platform env_save_fails "wifi_events run_sta_connected" 0 ?w] l
    by (simp add: eq)
  have nv: "nvs (handle_wifi esp32_platform env_save_fails run_sta_connected) = Map.empty"
    using on_exit_frame [of env_save_fails "fst ?sc" "snd ?sc"]
      scan_service_fields [of esp32_platform env_save_fails "wifi_events run_sta_connected" 0 ?w]
    by (simp add: eq l(4) run_sta_connected_eq(2) save_second_write_fails)
  show ?thesis
    using st nv run_set_cfg_eq(1)
    by (simp add: esp_wmngr_get_state_def load_empty run_update_def run_sta_connected_def)
qed

section \<open>Lifetime of scan snapshots\<close>

lemma count_list_remove1_same:
  "a \<in> set xs \<Longrightarrow> int (count_list (remove1 a xs) a) = int (count_list xs a) - 1"
  by (induction xs) auto

lemma count_list_remove1_other:
  "b \<noteq> a \<Longrightarrow> count_list (remove1 a xs) b = count_list xs b"
  by (induction xs) auto

lemma count_list_pos: "a \<in> set xs \<Longrightarrow> 1 \<le> int (count_list xs a)"
  by (induction xs) auto

lemma atomic_int_wrap_id: "- (2 ^ 31) \<le> i \<Longrightarrow> i < 2 ^ 31 \<Longrightarrow> atomic_int_wrap i = i"
  by (simp add: atomic_int_wrap_def)

lemma count_list_le_length: "count_list xs a \<le> length xs"
  by (induction xs) auto

lemma snap_invI:
  assumes "\<not> fault w"
    and "\<And>a r. heap w a = Some r \<Longrightarrow>
        ref_cnt r = int (count_list (hs @ tmp) a) + (if scan_ref w = Some a then 1 else 0)"
    and "\<And>a r. heap w a = Some r \<Longrightarrow> 1 \<le> ref_cnt r"
    and "\<And>a r. heap w a = Some r \<Longrightarrow> a < next_addr w"
    and "\<And>a. scan_ref w = Some a \<or> a \<in> set hs \<Longrightarrow>
        \<exists>r p. heap w a = Some r \<and> ap_records (data r) = Some p"
    and "\<And>a. a \<in> set tmp \<Longrightarrow> heap w a \<noteq> None"
    and "\<And>a r p. heap w a = Some r \<Longrightarrow> ap_records (data r) = Some p \<Longrightarrow> arrays w p \<noteq> None"
    and "\<And>a b ra rb p. heap w a = Some ra \<Longrightarrow> heap w b = Some rb \<Longrightarrow>
        ap_records (data ra) = Some p \<Longrightarrow> ap_records (data rb) = Some p \<Longrightarrow> a = b"
    and "\<And>p. arrays w p \<noteq> None \<Longrightarrow> p < next_addr w"
    and "\<And>a r. heap w a = Some r \<Longrightarrow> ref_cnt r < 2 ^ 31"
  shows "snap_inv w hs tmp"
  unfolding snap_inv_def using assms by blast

lemma snap_invD:
  assumes "snap_inv w hs tmp"
  shows "\<not> fault w"
    and "\<And>a r. heap w a = Some r \<Longrightarrow>
        ref_cnt r = int (count_list (hs @ tmp) a) + (if scan_ref w = Some a then 1 else 0)"
    and "\<And>a r. heap w a = Some r \<Longrightarrow> 1 \<le> ref_cnt r"
    and "\<And>a r. heap w a = Some r \<Longrightarrow> a < next_addr w"
    and "\<And>a. scan_ref w = Some a \<or> a \<in> set hs \<Longrightarrow>
        \<exists>r p. heap w a = Some r \<and> ap_records (data r) = Some p"
    and "\<And>a. a \<in> set tmp \<Longrightarrow> heap w a \<noteq> None"
    and "\<And>a r p. heap w a = Some r \<Longrightarrow> ap_records (data r) = Some p \<Longrightarrow> arrays w p \<noteq> None"
    and "\<And>a b ra rb p. heap w a = Some ra \<Longrightarrow> heap w b = Some rb \<Longrightarrow>
        ap_records (data ra) = Some p \<Longrightarrow> ap_records (data rb) = Some p \<Longrightarrow> a = b"
    and "\<And>p. arrays w p \<noteq> None \<Longrightarrow> p < next_addr w"
    and "\<And>a r. heap w a = Some r \<Longrightarrow> ref_cnt r < 2 ^ 31"
  using assms unfolding snap_inv_def by blast+

lemma snap_inv_clear_bits:
  "snap_inv (xEventGroupClearBits b w) hs tmp = snap_inv w hs tmp"
  by (simp add: snap_inv_def xEventGroupClearBits_def)

lemma snap_inv_recount:
  assumes inv: "snap_inv w hs tmp" and r: "heap w a = Some r"
    and cnt: "c = int (count_list (hs' @ tmp') a) + (if scan_ref w = Some a then 1 else 0)"
    and pos: "1 \<le> c" and bnd: "c < 2 ^ 31"
    and oth: "\<And>b. b \<noteq> a \<Longrightarrow> count_list (hs' @ tmp') b = count_list (hs @ tmp) b"
    and hs': "set hs' \<subseteq> insert a (set hs)" and tmp': "set tmp' \<subseteq> insert a (set tmp)"
    and rec: "a \<in> set hs' \<Longrightarrow> ap_records (data r) \<noteq> None"
  shows "snap_inv (w\<lparr>heap := (heap w)(a \<mapsto> r\<lparr>ref_cnt := c\<rparr>)\<rparr>) hs' tmp'"
proof (rule snap_invI)
  let ?w = "w\<lparr>heap := (heap w)(a \<mapsto> r\<lparr>ref_cnt := c\<rparr>)\<rparr>"
  note D = snap_invD [OF inv]
  show "\<not> fault ?w" using D(1) by simp
  show "ref_cnt r' = int (count_list (hs' @ tmp') b) + (if scan_ref ?w = Some b then 1 else 0)"
    if "heap ?w b = Some r'" for b r'
  proof (cases "b = a")
    case True
    with that cnt show ?thesis by auto
  next
    case False
    with that have "heap w b = Some r'" by simp
    from D(2) [OF this] oth [OF False] show ?thesis by simp
  qed
  show "1 \<le> ref_cnt r'" if "heap ?w b = Some r'" for b r'
    using that pos D(3) [of b r'] by (cases "b = a") auto
  show "b < next_addr ?w" if "heap ?w b = Some r'" for b r'
    using that D(4) [of b r'] D(4) [OF r] by (cases "b = a") auto
  show "\<exists>r' p. heap ?w b = Some r' \<and> ap_records (data r') = Some p"
    if "scan_ref ?w = Some b \<or> b \<in> set hs'" for b
  proof (cases "b = a")
    case True
    have "ap_records (data r) \<noteq> None"
    proof (cases "a \<in> set hs'")
      case True
      then show ?thesis by (rule rec)
    next
      case False
      with that \<open>b = a\<close> have "scan_ref w = Some a" by simp
      with D(5) [of a] r show ?thesis by auto
    qed
    with True show ?thesis by auto
  next
    case False
    with that hs' have "scan_ref w = Some b \<or> b \<in> set hs" by auto
    from D(5) [OF this] False show ?thesis by simp
  qed
  show "heap ?w b \<noteq> None" if "b \<in> set tmp'" for b
    using that tmp' D(6) [of b] by (cases "b = a") auto
  show "arrays ?w p \<noteq> None" if "heap ?w b = Some r'" "ap_records (data r') = Some p" for b r' p
    using that D(7) [of b r' p] D(7) [OF r, of p] by (cases "b = a") auto
  show "b1 = b2" if "heap ?w b1 = Some r1" "heap ?w b2 = Some r2"
    "ap_records (data r1) = Some p" "ap_records (data r2) = Some p" for b1 b2 r1 r2 p
  proof -
    have h1: "\<exists>r1'. heap w b1 = Some r1' \<and> ap_records (data r1') = Some p"
      using that(1,3) r by (cases "b1 = a") auto
    have h2: "\<exists>r2'. heap w b2 = Some r2' \<and> ap_records (data r2') = Some p"
      using that(2,4) r by (cases "b2 = a") auto
    from h1 h2 D(8) show ?thesis by blast
  qed
  show "p < next_addr ?w" if "arrays ?w p \<noteq> None" for p
    using that D(9) [of p] by simp
  show "ref_cnt r' < 2 ^ 31" if "heap ?w b = Some r'" for b r'
    using that bnd D(10) [of b r'] by (cases "b = a") auto
qed

lemma snap_inv_release:
  assumes inv: "snap_inv w hs tmp" and r: "heap w a = Some r"
    and nsr: "scan_ref w \<noteq> Some a"
    and oth: "\<And>b. b \<noteq> a \<Longrightarrow> count_list (hs' @ tmp') b = count_list (hs @ tmp) b"
    and hs': "set hs' \<subseteq> set hs - {a}" and tmp': "set tmp' \<subseteq> set tmp - {a}"
    and h': "h' = (heap w)(a := None)"
    and ar': "ar' = (case ap_records (data r) of None \<Rightarrow> arrays w
                                               | Some p \<Rightarrow> (arrays w)(p := None))"
  shows "snap_inv (w\<lparr>arrays := ar', heap := h'\<rparr>) hs' tmp'"
proof (rule snap_invI)
  let ?w = "w\<lparr>arrays := ar', heap := h'\<rparr>"
  note D = snap_invD [OF inv]
  have live: "heap w b = Some r'" "b \<noteq> a" if "heap ?w b = Some r'" for b r'
    using that h' by (auto split: if_splits)
  have arr: "arrays ?w p = arrays w p" if "ap_records (data r) \<noteq> Some p" for p
    using that ar' by (auto split: option.splits)
  show "\<not> fault ?w" using D(1) by simp
  show "ref_cnt r' = int (count_list (hs' @ tmp') b) + (if scan_ref ?w = Some b then 1 else 0)"
    if "heap ?w b = Some r'" for b r'
    using D(2) [OF live(1) [OF that]] oth [OF live(2) [OF that]] by simp
  show "1 \<le> ref_cnt r'" if "heap ?w b = Some r'" for b r'
    using D(3) [OF live(1) [OF that]] .
  show "b < next_addr ?w" if "heap ?w b = Some r'" for b r'
    using D(4) [OF live(1) [OF that]] by simp
  show "\<exists>r' p. heap ?w b = Some r' \<and> ap_records (data r') = Some p"
    if "scan_ref ?w = Some b \<or> b \<in> set hs'" for b
  proof -
    from that nsr hs' have ne: "b \<noteq> a" by auto
    from that hs' have "scan_ref w = Some b \<or> b \<in> set hs" by auto
    from D(5) [OF this] ne h' show ?thesis by simp
  qed
  show "heap ?w b \<noteq> None" if "b \<in> set tmp'" for b
    using that tmp' D(6) [of b] h' by auto
  show "arrays ?w p \<noteq> None" if "heap ?w b = Some r'" "ap_records (data r') = Some p" for b r' p
  proof -
    note l = live [OF that(1)]
    have "ap_records (data r) \<noteq> Some p"
    proof
      assume "ap_records (data r) = Some p"
      from D(8) [OF l(1) r that(2) this] l(2) show False by simp
    qed
    from arr [OF this] D(7) [OF l(1) that(2)] show ?thesis by simp
  qed
  show "b1 = b2" if "heap ?w b1 = Some r1" "heap ?w b2 = Some r2"
    "ap_records (data r1) = Some p" "ap_records (data r2) = Some p" for b1 b2 r1 r2 p
    using D(8) [OF live(1) [OF that(1)] live(1) [OF that(2)] that(3) that(4)] .
  show "p < next_addr ?w" if "arrays ?w p \<noteq> None" for p
  proof -
    from that ar' have "arrays w p \<noteq> None" by (auto split: option.splits if_splits)
    from D(9) [OF this] show ?thesis by simp
  qed
  show "ref_cnt r' < 2 ^ 31" if "heap ?w b = Some r'" for b r'
    using D(10) [OF live(1) [OF that]] .
qed

lemma put_scan_eq:
  assumes inv: "snap_inv w hs tmp" and r: "heap w a = Some r"
  shows "esp_wmngr_put_scan a w =
    (if ref_cnt r = 1
     then w\<lparr>arrays := (case ap_records (data r) of None \<Rightarrow> arrays w
                                               | Some p \<Rightarrow> (arrays w)(p := None)),
            heap := (heap w)(a := None)\<rparr>
     else w\<lparr>heap := (heap w)(a \<mapsto> r\<lparr>ref_cnt := ref_cnt r - 1\<rparr>)\<rparr>)"
proof -
  note D = snap_invD [OF inv]
  have c: "1 \<le> ref_cnt r" using D(3) [OF r] .
  have wr: "atomic_int_wrap (ref_cnt r - 1) = ref_cnt r - 1"
    using c D(10) [OF r] by (simp add: atomic_int_wrap_id)
  have a: "arrays w p \<noteq> None" if "ap_records (data r) = Some p" for p
    using D(7) [OF r that] .
  show ?thesis
  proof (cases "ap_records (data r)")
    case None
    with r c wr show ?thesis
      by (simp add: esp_wmngr_put_scan_def kref_put_def free_scan_data_def Let_def)
  next
    case (Some p)
    with r c wr a [OF Some] show ?thesis
      by (auto simp add: esp_wmngr_put_scan_def kref_put_def free_scan_data_def Let_def)
  qed
qed

lemma snap_inv_put_reader:
  assumes inv: "snap_inv w hs tmp" and a: "a \<in> set hs"
  shows "snap_inv (esp_wmngr_put_scan a w) (remove1 a hs) tmp"
proof -
  note D = snap_invD [OF inv]
  from D(5) [of a] a obtain r p where r: "heap w a = Some r" "ap_records (data r) = Some p"
    by blast
  have cnt: "ref_cnt r = int (count_list hs a) + int (count_list tmp a)
               + (if scan_ref w = Some a then 1 else 0)"
    using D(2) [OF r(1)] by simp
  have rm: "int (count_list (remove1 a hs) a) = int (count_list hs a) - 1"
    using count_list_remove1_same [OF a] .
  have ha: "1 \<le> int (count_list hs a)" using count_list_pos [OF a] .
  have oth: "count_list (remove1 a hs @ tmp) b = count_list (hs @ tmp) b" if "b \<noteq> a" for b
    using count_list_remove1_other [OF that] by simp
  show ?thesis
  proof (cases "ref_cnt r = 1")
    case True
    with cnt ha have z: "count_list hs a = 1" "count_list tmp a = 0" "scan_ref w \<noteq> Some a"
      by (auto split: if_splits)
    from z(1) rm have "count_list (remove1 a hs) a = 0" by simp
    then have "a \<notin> set (remove1 a hs)" by (metis count_list_0_iff)
    then have s1: "set (remove1 a hs) \<subseteq> set hs - {a}"
      using set_remove1_subset [of a hs] by auto
    from z(2) have "a \<notin> set tmp" by (metis count_list_0_iff)
    then have s2: "set tmp \<subseteq> set tmp - {a}" by auto
    show ?thesis
      unfolding put_scan_eq [OF inv r(1)] using True
      by (simp add: snap_inv_release [OF inv r(1) z(3) oth s1 s2 refl refl])
  next
    case False
    have c1: "ref_cnt r - 1 = int (count_list (remove1 a hs @ tmp) a)
                + (if scan_ref w = Some a then 1 else 0)"
      using cnt rm by simp
    have c2: "1 \<le> ref_cnt r - 1" using D(3) [OF r(1)] False by simp
    have c3: "ref_cnt r - 1 < 2 ^ 31" using D(10) [OF r(1)] by simp
    have s1: "set (remove1 a hs) \<subseteq> insert a (set hs)"
      using set_remove1_subset [of a hs] by auto
    have s2: "set tmp \<subseteq> insert a (set tmp)" by auto
    have rec: "ap_records (data r) \<noteq> None" using r(2) by simp
    show ?thesis
      unfolding put_scan_eq [OF inv r(1)] using False
      by (simp add: snap_inv_recount [OF inv r(1) c1 c2 c3 oth s1 s2 rec])
  qed
qed

lemma snap_inv_put_tmp:
  assumes inv: "snap_inv w hs tmp" and a: "a \<in> set tmp"
  shows "snap_inv (esp_wmngr_put_scan a w) hs (remove1 a tmp)"
proof -
  note D = snap_invD [OF inv]
  from D(6) [OF a] obtain r where r: "heap w a = Some r" by blast
  have cnt: "ref_cnt r = int (count_list hs a) + int (count_list tmp a)
               + (if scan_ref w = Some a then 1 else 0)"
    using D(2) [OF r] by simp
  have rm: "int (count_list (remove1 a tmp) a) = int (count_list tmp a) - 1"
    using count_list_remove1_same [OF a] .
  have ha: "1 \<le> int (count_list tmp a)" using count_list_pos [OF a] .
  have oth: "count_list (hs @ remove1 a tmp) b = count_list (hs @ tmp) b" if "b \<noteq> a" for b
    using count_list_remove1_other [OF that] by simp
  show ?thesis
  proof (cases "ref_cnt r = 1")
    case True
    with cnt ha have z: "count_list tmp a = 1" "count_list hs a = 0" "scan_ref w \<noteq> Some a"
      by (auto split: if_splits)
    from z(1) rm have "count_list (remove1 a tmp) a = 0" by simp
    then have "a \<notin> set (remove1 a tmp)" by (metis count_list_0_iff)
    then have s2: "set (remove1 a tmp) \<subseteq> set tmp - {a}"
      using set_remove1_subset [of a tmp] by auto
    from z(2) have "a \<notin> set hs" by (metis count_list_0_iff)
    then have s1: "set hs \<subseteq> set hs - {a}" by auto
    show ?thesis
      unfolding put_scan_eq [OF inv r] using True
      by (simp add: snap_inv_release [OF inv r z(3) oth s1 s2 refl refl])
  next
    case False
    have c1: "ref_cnt r - 1 = int (count_list (hs @ remove1 a tmp) a)
                + (if scan_ref w = Some a then 1 else 0)"
      using cnt rm by simp
    have c2: "1 \<le> ref_cnt r - 1" using D(3) [OF r] False by simp
    have c3: "ref_cnt r - 1 < 2 ^ 31" using D(10) [OF r] by simp
    have s2: "set (remove1 a tmp) \<subseteq> insert a (set tmp)"
      using set_remove1_subset [of a tmp] by auto
    have s1: "set hs \<subseteq> insert a (set hs)" by auto
    have rec: "ap_records (data r) \<noteq> None" if "a \<in> set hs"
      using D(5) [of a] that r by auto
    show ?thesis
      unfolding put_scan_eq [OF inv r] using False
      by (simp add: snap_inv_recount [OF inv r c1 c2 c3 oth s1 s2 rec])
  qed
qed

lemma snap_inv_get_reader:
  assumes inv: "snap_inv w hs tmp" and sr: "scan_ref w = Some a"
    and room: "length (hs @ tmp) + 2 < 2 ^ 31"
  shows "snap_inv (kref_get a w) (a # hs) tmp"
proof -
  note D = snap_invD [OF inv]
  from D(5) [of a] sr obtain r p where r: "heap w a = Some r" "ap_records (data r) = Some p"
    by blast
  have "int (count_list (hs @ tmp) a) \<le> int (length (hs @ tmp))"
    using count_list_le_length [of "hs @ tmp" a] by simp
  moreover have "int (length (hs @ tmp)) + 2 < 2 ^ 31"
    using room by (metis of_nat_less_iff of_nat_add of_nat_numeral of_nat_power)
  ultimately have c3: "ref_cnt r + 1 < 2 ^ 31"
    using D(2) [OF r(1)] sr by simp
  have wr: "atomic_int_wrap (ref_cnt r + 1) = ref_cnt r + 1"
    using D(3) [OF r(1)] c3 by (simp add: atomic_int_wrap_id)
  have eq: "kref_get a w = w\<lparr>heap := (heap w)(a \<mapsto> r\<lparr>ref_cnt := ref_cnt r + 1\<rparr>)\<rparr>"
    using r D(3) [OF r(1)] wr by (simp add: kref_get_def Let_def)
  have c1: "ref_cnt r + 1 = int (count_list ((a # hs) @ tmp) a)
              + (if scan_ref w = Some a then 1 else 0)"
    using D(2) [OF r(1)] by simp
  have c2: "1 \<le> ref_cnt r + 1" using D(3) [OF r(1)] by simp
  have oth: "count_list ((a # hs) @ tmp) b = count_list (hs @ tmp) b" if "b \<noteq> a" for b
    using that by simp
  have s1: "set (a # hs) \<subseteq> insert a (set hs)" and s2: "set tmp \<subseteq> insert a (set tmp)" by auto
  have rec: "ap_records (data r) \<noteq> None" using r(2) by simp
  show ?thesis
    unfolding eq by (rule snap_inv_recount [OF inv r(1) c1 c2 c3 oth s1 s2 rec])
qed

lemma snap_inv_same_shape:
  assumes inv: "snap_inv w hs tmp"
    and f: "fault w' = fault w" and sr: "scan_ref w' = scan_ref w"
    and nx: "next_addr w' = next_addr w"
    and hp: "\<And>b r'. heap w' b = Some r' \<Longrightarrow>
               \<exists>r. heap w b = Some r \<and> ref_cnt r' = ref_cnt r
                    \<and> ap_records (data r') = ap_records (data r)"
    and hn: "\<And>b. heap w' b = None \<Longrightarrow> heap w b = None"
    and ar: "\<And>p. arrays w' p = None \<Longrightarrow> arrays w p = None"
    and ar2: "\<And>p. arrays w p = None \<Longrightarrow> arrays w' p = None"
  shows "snap_inv w' hs tmp"
proof (rule snap_invI)
  note D = snap_invD [OF inv]
  show "\<not> fault w'" using D(1) f by simp
  show "ref_cnt r' = int (count_list (hs @ tmp) b) + (if scan_ref w' = Some b then 1 else 0)"
    if "heap w' b = Some r'" for b r'
    using hp [OF that] D(2) [of b] sr by auto
  show "1 \<le> ref_cnt r'" if "heap w' b = Some r'" for b r'
    using hp [OF that] D(3) [of b] by auto
  show "b < next_addr w'" if "heap w' b = Some r'" for b r'
    using hp [OF that] D(4) [of b] nx by auto
  show "\<exists>r' p. heap w' b = Some r' \<and> ap_records (data r') = Some p"
    if "scan_ref w' = Some b \<or> b \<in> set hs" for b
  proof -
    from that sr have "scan_ref w = Some b \<or> b \<in> set hs" by simp
    from D(5) [OF this] obtain r p where r: "heap w b = Some r" "ap_records (data r) = Some p"
      by blast
    have "heap w' b \<noteq> None"
    proof
      assume "heap w' b = None"
      from hn [OF this] r(1) show False by simp
    qed
    then obtain r' where r': "heap w' b = Some r'" by auto
    from hp [OF r'] r r' show ?thesis by auto
  qed
  show "heap w' b \<noteq> None" if "b \<in> set tmp" for b
  proof
    assume "heap w' b = None"
    from hn [OF this] D(6) [OF that] show False by simp
  qed
  show "arrays w' p \<noteq> None" if "heap w' b = Some r'" "ap_records (data r') = Some p" for b r' p
  proof -
    from hp [OF that(1)] that(2) obtain r where "heap w b = Some r" "ap_records (data r) = Some p"
      by auto
    from D(7) [OF this] have n: "arrays w p \<noteq> None" .
    show ?thesis
    proof
      assume "arrays w' p = None"
      from ar [OF this] n show False by simp
    qed
  qed
  show "b1 = b2" if "heap w' b1 = Some r1" "heap w' b2 = Some r2"
    "ap_records (data r1) = Some p" "ap_records (data r2) = Some p" for b1 b2 r1 r2 p
  proof -
    from hp [OF that(1)] that(3) obtain q1 where q1: "heap w b1 = Some q1" "ap_records (data q1) = Some p"
      by auto
    from hp [OF that(2)] that(4) obtain q2 where q2: "heap w b2 = Some q2" "ap_records (data q2) = Some p"
      by auto
    from D(8) [OF q1(1) q2(1) q1(2) q2(2)] show ?thesis .
  qed
  show "p < next_addr w'" if "arrays w' p \<noteq> None" for p
  proof -
    have "arrays w p \<noteq> None"
    proof
      assume "arrays w p = None"
      from ar2 [OF this] that show False by simp
    qed
    from D(9) [OF this] nx show ?thesis by simp
  qed
  show "ref_cnt r' < 2 ^ 31" if "heap w' b = Some r'" for b r'
    using hp [OF that] D(10) [of b] by auto
qed

lemma snap_inv_calloc_scan_ref:
  assumes inv: "snap_inv w hs tmp"
  shows "snap_inv (snd (calloc_scan_ref w)) hs (next_addr w # tmp)"
    and "fst (calloc_scan_ref w) = next_addr w"
    and "\<exists>r. heap (snd (calloc_scan_ref w)) (next_addr w) = Some r \<and> ap_records (data r) = None"
    and "scan_ref (snd (calloc_scan_ref w)) = scan_ref w"
    and "next_addr w \<notin> set hs"
proof -
  let ?a = "next_addr w"
  let ?r0 = "\<lparr>ref_cnt = 1, status = 0,
              data = \<lparr>tstamp = 0, ap_records = None, num_records = 0\<rparr>\<rparr>"
  let ?w = "w\<lparr>heap := (heap w)(?a \<mapsto> ?r0), next_addr := Suc ?a\<rparr>"
  note D = snap_invD [OF inv]
  have eq: "calloc_scan_ref w = (?a, ?w)" by (simp add: calloc_scan_ref_def Let_def)
  have fresh: "heap w ?a = None"
    using D(4) [of ?a] by (cases "heap w ?a") auto
  have nh: "?a \<notin> set hs" using D(5) [of ?a] fresh by auto
  have nt: "?a \<notin> set tmp" using D(6) [of ?a] fresh by auto
  have ns: "scan_ref w \<noteq> Some ?a" using D(5) [of ?a] fresh by auto
  show "fst (calloc_scan_ref w) = next_addr w" by (simp add: eq)
  show "\<exists>r. heap (snd (calloc_scan_ref w)) (next_addr w) = Some r \<and> ap_records (data r) = None"
    by (simp add: eq)
  show "scan_ref (snd (calloc_scan_ref w)) = scan_ref w" by (simp add: eq)
  show "next_addr w \<notin> set hs" by (rule nh)
  have "snap_inv ?w hs (?a # tmp)"
  proof (rule snap_invI)
    show "\<not> fault ?w" using D(1) by simp
    show "ref_cnt r' = int (count_list (hs @ ?a # tmp) b) + (if scan_ref ?w = Some b then 1 else 0)"
      if "heap ?w b = Some r'" for b r'
    proof (cases "b = ?a")
      case True
      with that nh nt ns show ?thesis by auto
    next
      case False
      with that D(2) [of b r'] show ?thesis by simp
    qed
    show "1 \<le> ref_cnt r'" if "heap ?w b = Some r'" for b r'
      using that D(3) [of b r'] by (cases "b = ?a") auto
    show "b < next_addr ?w" if "heap ?w b = Some r'" for b r'
      using that D(4) [of b r'] by (cases "b = ?a") auto
    show "\<exists>r' p. heap ?w b = Some r' \<and> ap_records (data r') = Some p"
      if "scan_ref ?w = Some b \<or> b \<in> set hs" for b
    proof -
      from that nh ns have "b \<noteq> ?a" by auto
      with that D(5) [of b] show ?thesis by simp
    qed
    show "heap ?w b \<noteq> None" if "b \<in> set (?a # tmp)" for b
      using that D(6) [of b] by (cases "b = ?a") auto
    show "arrays ?w p \<noteq> None" if "heap ?w b = Some r'" "ap_records (data r') = Some p" for b r' p
      using that D(7) [of b r' p] by (cases "b = ?a") auto
    show "b1 = b2" if "heap ?w b1 = Some r1" "heap ?w b2 = Some r2"
      "ap_records (data r1) = Some p" "ap_records (data r2) = Some p" for b1 b2 r1 r2 p
    proof -
      from that(1,3) have h1: "heap w b1 = Some r1" by (cases "b1 = ?a") auto
      from that(2,4) have h2: "heap w b2 = Some r2" by (cases "b2 = ?a") auto
      from D(8) [OF h1 h2 that(3) that(4)] show ?thesis .
    qed
    show "p < next_addr ?w" if "arrays ?w p \<noteq> None" for p
      using that D(9) [of p] by auto
    show "ref_cnt r' < 2 ^ 31" if "heap ?w b = Some r'" for b r'
      using that D(10) [of b r'] by (cases "b = ?a") auto
  qed
  then show "snap_inv (snd (calloc_scan_ref w)) hs (next_addr w # tmp)" by (simp add: eq)
qed

lemma snap_inv_calloc_ap_records:
  assumes inv: "snap_inv w hs tmp" and r: "heap w a = Some r" "ap_records (data r) = None"
  shows "snap_inv (calloc_ap_records P n a w) hs tmp"
    and "\<exists>r' p. heap (calloc_ap_records P n a w) a = Some r' \<and> ap_records (data r') = Some p"
    and "scan_ref (calloc_ap_records P n a w) = scan_ref w"
proof -
  let ?p = "next_addr w"
  let ?r = "r\<lparr>data := (data r)\<lparr>ap_records := Some ?p\<rparr>\<rparr>"
  let ?w = "w\<lparr>heap := (heap w)(a \<mapsto> ?r),
              arrays := (arrays w)(?p \<mapsto> replicate (unat n) (zeroes (SIZEOF_AP_RECORD P))),
              next_addr := Suc ?p\<rparr>"
  note D = snap_invD [OF inv]
  have eq: "calloc_ap_records P n a w = ?w"
    using r by (simp add: calloc_ap_records_def Let_def)
  have fresh: "arrays w ?p = None"
    using D(9) [of ?p] by (cases "arrays w ?p") auto
  have unowned: "ap_records (data r') \<noteq> Some ?p" if "heap w b = Some r'" for b r'
    using D(7) [OF that, of ?p] fresh by auto
  have nh: "a \<notin> set hs" and ns: "scan_ref w \<noteq> Some a"
    using D(5) [of a] r by auto
  show "\<exists>r' p. heap (calloc_ap_records P n a w) a = Some r' \<and> ap_records (data r') = Some p"
    by (simp add: eq)
  show "scan_ref (calloc_ap_records P n a w) = scan_ref w" by (simp add: eq)
  have "snap_inv ?w hs tmp"
  proof (rule snap_invI)
    show "\<not> fault ?w" using D(1) by simp
    show "ref_cnt r' = int (count_list (hs @ tmp) b) + (if scan_ref ?w = Some b then 1 else 0)"
      if "heap ?w b = Some r'" for b r'
      using that D(2) [of b r'] D(2) [OF r(1)] by (cases "b = a") auto
    show "1 \<le> ref_cnt r'" if "heap ?w b = Some r'" for b r'
      using that D(3) [of b r'] D(3) [OF r(1)] by (cases "b = a") auto
    show "b < next_addr ?w" if "heap ?w b = Some r'" for b r'
      using that D(4) [of b r'] D(4) [OF r(1)] by (cases "b = a") auto
    show "\<exists>r' p. heap ?w b = Some r' \<and> ap_records (data r') = Some p"
      if "scan_ref ?w = Some b \<or> b \<in> set hs" for b
    proof -
      from that nh ns have "b \<noteq> a" by auto
      with that D(5) [of b] show ?thesis by simp
    qed
    show "heap ?w b \<noteq> None" if "b \<in> set tmp" for b
      using D(6) [OF that] by (cases "b = a") auto
    show "arrays ?w p \<noteq> None" if "heap ?w b = Some r'" "ap_records (data r') = Some p" for b r' p
      using that D(7) [of b r' p] by (cases "b = a") auto
    show "b1 = b2" if "heap ?w b1 = Some r1" "heap ?w b2 = Some r2"
      "ap_records (data r1) = Some p" "ap_records (data r2) = Some p" for b1 b2 r1 r2 p
    proof (cases "b1 = a")
      case True
      with that(1,3) have p: "p = ?p" by auto
      show ?thesis
      proof (cases "b2 = a")
        case True
        with \<open>b1 = a\<close> show ?thesis by simp
      next
        case False
        with that(2) have "heap w b2 = Some r2" by simp
        from unowned [OF this] that(4) p show ?thesis by simp
      qed
    next
      case False
      with that(1) have h1: "heap w b1 = Some r1" by simp
      show ?thesis
      proof (cases "b2 = a")
        case True
        with that(2,4) have "p = ?p" by auto
        with unowned [OF h1] that(3) show ?thesis by simp
      next
        case False
        with that(2) have "heap w b2 = Some r2" by simp
        from D(8) [OF h1 this that(3) that(4)] show ?thesis .
      qed
    qed
    show "p < next_addr ?w" if "arrays ?w p \<noteq> None" for p
      using that D(9) [of p] by (cases "p = ?p") auto
    show "ref_cnt r' < 2 ^ 31" if "heap ?w b = Some r'" for b r'
      using that D(10) [of b r'] D(10) [OF r(1)] by (cases "b = a") auto
  qed
  then show "snap_inv (calloc_ap_records P n a w) hs tmp" by (simp add: eq)
qed

lemma snap_inv_fetch_ap_records:
  assumes inv: "snap_inv w hs tmp" and r: "heap w a = Some r" "ap_records (data r) = Some p"
  shows "snap_inv (fetch_ap_records sc n a w) hs tmp"
    and "\<exists>r' p. heap (fetch_ap_records sc n a w) a = Some r' \<and> ap_records (data r') = Some p"
    and "scan_ref (fetch_ap_records sc n a w) = scan_ref w"
proof -
  obtain result m recs where g: "scan_get_ap_records_r sc = (result, m, recs)"
    by (cases "scan_get_ap_records_r sc") auto
  let ?r = "r\<lparr>data := (data r)\<lparr>tstamp := scan_tick sc,
                       num_records := (if result = ESP_OK then m else n)\<rparr>\<rparr>"
  let ?w = "w\<lparr>heap := (heap w)(a \<mapsto> ?r),
              arrays := (if result = ESP_OK then (arrays w)(p \<mapsto> recs) else arrays w)\<rparr>"
  note D = snap_invD [OF inv]
  have eq: "fetch_ap_records sc n a w = ?w"
    using r g by (simp add: fetch_ap_records_def Let_def)
  show "\<exists>r' p. heap (fetch_ap_records sc n a w) a = Some r' \<and> ap_records (data r') = Some p"
    using r by (simp add: eq)
  show "scan_ref (fetch_ap_records sc n a w) = scan_ref w" by (simp add: eq)
  have "snap_inv ?w hs tmp"
  proof (rule snap_inv_same_shape [OF inv])
    show "fault ?w = fault w" "scan_ref ?w = scan_ref w" "next_addr ?w = next_addr w"
      by simp_all
    show "\<exists>q. heap w b = Some q \<and> ref_cnt r' = ref_cnt q
               \<and> ap_records (data r') = ap_records (data q)"
      if "heap ?w b = Some r'" for b r'
      using that r by (cases "b = a") auto
    show "heap w b = None" if "heap ?w b = None" for b
      using that by (cases "b = a") auto
    show "arrays w q = None" if "arrays ?w q = None" for q
      using that by (cases "q = p") (auto split: if_splits)
    show "arrays ?w q = None" if "arrays w q = None" for q
      using that D(7) [OF r] by (cases "q = p") auto
  qed
  then show "snap_inv (fetch_ap_records sc n a w) hs tmp" by (simp add: eq)
qed

lemma put_scan_ref: "scan_ref (esp_wmngr_put_scan a w) = scan_ref w"
  using kref_put_frame [of a w] by (simp add: esp_wmngr_put_scan_def)

lemma snap_inv_publish:
  assumes inv: "snap_inv w hs tmp" and a: "a \<in> set tmp" and ns: "scan_ref w \<noteq> Some a"
    and r: "heap w a = Some r" "ap_records (data r) = Some p"
    and room: "ref_cnt r + 1 < 2 ^ 31"
  shows "snap_inv (publish_scan a w) hs tmp"
proof -
  note D = snap_invD [OF inv]
  let ?r = "r\<lparr>ref_cnt := ref_cnt r + 1\<rparr>"
  let ?w2 = "w\<lparr>heap := (heap w)(a \<mapsto> ?r), scan_ref := Some a\<rparr>"
  let ?tmp = "(case scan_ref w of None \<Rightarrow> tmp | Some prev \<Rightarrow> prev # tmp)"
  have wr: "atomic_int_wrap (ref_cnt r + 1) = ref_cnt r + 1"
    using D(3) [OF r(1)] room by (simp add: atomic_int_wrap_id)
  have k: "kref_get a w = w\<lparr>heap := (heap w)(a \<mapsto> ?r)\<rparr>"
    using r D(3) [OF r(1)] wr by (simp add: kref_get_def Let_def)
  have eq: "publish_scan a w
      = (case scan_ref w of None \<Rightarrow> ?w2 | Some prev \<Rightarrow> esp_wmngr_put_scan prev ?w2)"
    by (simp add: publish_scan_def k Let_def)
  have cnt_a: "count_list (hs @ ?tmp) a = count_list (hs @ tmp) a"
    using ns by (auto split: option.splits)
  have cnt_old: "int (count_list (hs @ ?tmp) b) = int (count_list (hs @ tmp) b) + 1"
    if "scan_ref w = Some b" for b
    using that by simp
  have cnt_oth: "count_list (hs @ ?tmp) b = count_list (hs @ tmp) b"
    if "scan_ref w \<noteq> Some b" for b
    using that by (auto split: option.splits)
  have inv2: "snap_inv ?w2 hs ?tmp"
  proof (rule snap_invI)
    show "\<not> fault ?w2" using D(1) by simp
    show "ref_cnt r' = int (count_list (hs @ ?tmp) b) + (if scan_ref ?w2 = Some b then 1 else 0)"
      if "heap ?w2 b = Some r'" for b r'
    proof (cases "b = a")
      case True
      with that have "r' = ?r" by simp
      with True D(2) [OF r(1)] ns cnt_a show ?thesis by simp
    next
      case False
      with that have h: "heap w b = Some r'" by simp
      show ?thesis
      proof (cases "scan_ref w = Some b")
        case True
        with D(2) [OF h] cnt_old [OF True] False show ?thesis by simp
      next
        case False
        with D(2) [OF h] cnt_oth [OF False] \<open>b \<noteq> a\<close> show ?thesis by simp
      qed
    qed
    show "1 \<le> ref_cnt r'" if "heap ?w2 b = Some r'" for b r'
      using that D(3) [of b r'] D(3) [OF r(1)] by (cases "b = a") auto
    show "b < next_addr ?w2" if "heap ?w2 b = Some r'" for b r'
      using that D(4) [of b r'] D(4) [OF r(1)] by (cases "b = a") auto
    show "\<exists>r' p. heap ?w2 b = Some r' \<and> ap_records (data r') = Some p"
      if "scan_ref ?w2 = Some b \<or> b \<in> set hs" for b
    proof (cases "b = a")
      case True
      with r show ?thesis by simp
    next
      case False
      with that have "b \<in> set hs" by simp
      with D(5) [of b] False show ?thesis by simp
    qed
    show "heap ?w2 b \<noteq> None" if "b \<in> set ?tmp" for b
    proof (cases "b = a")
      case True
      then show ?thesis by simp
    next
      case False
      from that have "b \<in> set tmp \<or> scan_ref w = Some b" by (auto split: option.splits)
      with D(5) [of b] D(6) [of b] False show ?thesis by auto
    qed
    show "arrays ?w2 q \<noteq> None" if "heap ?w2 b = Some r'" "ap_records (data r') = Some q" for b r' q
      using that D(7) [of b r' q] D(7) [OF r(1), of q] by (cases "b = a") auto
    show "b1 = b2" if "heap ?w2 b1 = Some r1" "heap ?w2 b2 = Some r2"
      "ap_records (data r1) = Some q" "ap_records (data r2) = Some q" for b1 b2 r1 r2 q
    proof -
      have h1: "\<exists>r1'. heap w b1 = Some r1' \<and> ap_records (data r1') = Some q"
        using that(1,3) r by (cases "b1 = a") auto
      have h2: "\<exists>r2'. heap w b2 = Some r2' \<and> ap_records (data r2') = Some q"
        using that(2,4) r by (cases "b2 = a") auto
      from h1 h2 D(8) show ?thesis by blast
    qed
    show "q < next_addr ?w2" if "arrays ?w2 q \<noteq> None" for q
      using that D(9) [of q] by simp
    show "ref_cnt r' < 2 ^ 31" if "heap ?w2 b = Some r'" for b r'
      using that D(10) [of b r'] room by (cases "b = a") auto
  qed
  show ?thesis
  proof (cases "scan_ref w")
    case None
    with inv2 show ?thesis by (simp add: eq)
  next
    case (Some prev)
    with inv2 have i: "snap_inv ?w2 hs (prev # tmp)" by simp
    have "snap_inv (esp_wmngr_put_scan prev ?w2) hs (remove1 prev (prev # tmp))"
      by (rule snap_inv_put_tmp [OF i]) simp
    with Some show ?thesis by (simp add: eq)
  qed
qed

lemma publish_scan_live:
  assumes inv: "snap_inv w hs tmp" and ns: "scan_ref w \<noteq> Some a"
    and r: "heap w a = Some r"
  shows "scan_ref (publish_scan a w) = Some a"
  by (simp add: publish_scan_def Let_def put_scan_ref split: option.splits)

lemma snap_inv_wifi_scan_done:
  assumes inv: "snap_inv w hs []"
  shows "snap_inv (wifi_scan_done P sc w) hs []"
proof -
  obtain result num where g: "scan_get_ap_num_r sc = (result, num)"
    by (cases "scan_get_ap_num_r sc")
  show ?thesis
  proof (cases "result \<noteq> ESP_OK \<or> num = 0")
    case True
    with g inv show ?thesis
      by (simp add: wifi_scan_done_def snap_inv_clear_bits)
  next
    case ok: False
    let ?n = "if num > MAX_NUM_APS then MAX_NUM_APS else num"
    show ?thesis
    proof (cases "calloc_ref_ok sc")
      case False
      with g ok inv show ?thesis by (simp add: wifi_scan_done_def Let_def)
    next
      case ref: True
      let ?a = "next_addr w"
      let ?w1 = "snd (calloc_scan_ref w)"
      note A = snap_inv_calloc_scan_ref [OF inv]
      have c: "calloc_scan_ref w = (?a, ?w1)" using A(2) by (metis prod.collapse)
      from A(3) obtain r1 where r1: "heap ?w1 ?a = Some r1" "ap_records (data r1) = None"
        by blast
      have ns1: "scan_ref ?w1 \<noteq> Some ?a"
        using snap_invD(5) [OF A(1), of ?a] r1 by auto
      show ?thesis
      proof (cases "calloc_records_ok sc")
        case False
        have "snap_inv (esp_wmngr_put_scan ?a ?w1) hs (remove1 ?a [?a])"
          by (rule snap_inv_put_tmp [OF A(1)]) simp
        with g ok ref False show ?thesis
          by (simp add: wifi_scan_done_def Let_def case_prod_unfold A(2))
      next
        case recs: True
        let ?w2 = "calloc_ap_records P ?n ?a ?w1"
        note B = snap_inv_calloc_ap_records [OF A(1) r1, of P ?n]
        from B(2) obtain r2 p2 where r2: "heap ?w2 ?a = Some r2" "ap_records (data r2) = Some p2"
          by blast
        let ?w3 = "fetch_ap_records sc ?n ?a ?w2"
        note C = snap_inv_fetch_ap_records [OF B(1) r2, of sc ?n]
        from C(2) obtain r3 p3 where r3: "heap ?w3 ?a = Some r3" "ap_records (data r3) = Some p3"
          by blast
        let ?w4 = "xEventGroupClearBits (BIT_SCAN_RUNNING OR BIT_SCAN_DONE) ?w3"
        have i4: "snap_inv ?w4 hs [?a]" using C(1) by (simp add: snap_inv_clear_bits)
        have r4: "heap ?w4 ?a = Some r3" using r3 by (simp add: xEventGroupClearBits_def)
        have ns4: "scan_ref ?w4 \<noteq> Some ?a"
          using ns1 B(3) C(3) by (simp add: xEventGroupClearBits_def)
        have "count_list hs ?a = 0" using A(5) by simp
        then have one: "ref_cnt r3 = 1"
          using snap_invD(2) [OF i4 r4] ns4 by simp
        have eq: "wifi_scan_done P sc w
            = (if fst (scan_get_ap_records_r sc) \<noteq> ESP_OK then esp_wmngr_put_scan ?a ?w4
               else esp_wmngr_put_scan ?a (publish_scan ?a ?w4))"
          using g ok ref recs by (simp add: wifi_scan_done_def Let_def case_prod_unfold A(2))
        show ?thesis
        proof (cases "fst (scan_get_ap_records_r sc) \<noteq> ESP_OK")
          case True
          have "snap_inv (esp_wmngr_put_scan ?a ?w4) hs (remove1 ?a [?a])"
            by (rule snap_inv_put_tmp [OF i4]) simp
          with True show ?thesis by (simp add: eq)
        next
          case False
          have i5: "snap_inv (publish_scan ?a ?w4) hs [?a]"
            by (rule snap_inv_publish [OF i4 _ ns4 r4 r3(2)]) (simp_all add: one)
          have "snap_inv (esp_wmngr_put_scan ?a (publish_scan ?a ?w4)) hs (remove1 ?a [?a])"
            by (rule snap_inv_put_tmp [OF i5]) simp
          with False show ?thesis by (simp add: eq)
        qed
      qed
    qed
  qed
qed

lemma snap_inv_scan_step:
  assumes inv: "snap_inv w held []"
    and ok: "\<And>a. ev = Reader_put a \<Longrightarrow> a \<in> set held"
    and room: "\<And>l. ev = Reader_get l \<Longrightarrow> length held + 2 < 2 ^ 31"
  shows "snap_inv (fst (scan_step P ev (w, held))) (snd (scan_step P ev (w, held))) []"
proof (cases ev)
  case (Reader_get lock_ok)
  show ?thesis
  proof (cases "scan_ref w")
    case None
    with Reader_get inv show ?thesis by (simp add: esp_wmngr_get_scan_def)
  next
    case (Some a)
    have "length (held @ []) + 2 < 2 ^ 31" using room [OF Reader_get] by simp
    from snap_inv_get_reader [OF inv Some this] Reader_get inv Some show ?thesis
      by (simp add: esp_wmngr_get_scan_def)
  qed
next
  case (Reader_put a)
  with snap_inv_put_reader [OF inv ok [OF Reader_put]] show ?thesis by simp
next
  case (Scan_done sc)
  with snap_inv_wifi_scan_done [OF inv] show ?thesis by simp
qed

lemma snap_inv_run_scan:
  assumes "snap_inv (fst s) (snd s) []" and "readers_ok P evs s"
  shows "snap_inv (fst (run_scan P evs s)) (snd (run_scan P evs s)) []"
  using assms
proof (induction evs arbitrary: s)
  case Nil
  then show ?case by simp
next
  case (Cons ev evs)
  obtain w held where s: "s = (w, held)" by (cases s)
  have put: "a \<in> set held" if "ev = Reader_put a" for a
    using Cons.prems(2) that s by simp
  have get: "length held + 2 < 2 ^ 31" if "ev = Reader_get l" for l
    using Cons.prems(2) that s by simp
  have step: "snap_inv (fst (scan_step P ev s)) (snd (scan_step P ev s)) []"
    using snap_inv_scan_step [of w held ev P] Cons.prems(1) put get s by simp
  have rest: "readers_ok P evs (scan_step P ev s)"
    using Cons.prems(2) by (cases ev) simp_all
  from Cons.IH [OF step rest] show ?case by simp
qed

lemma snap_inv_initial:
  assumes "heap w = Map.empty" "arrays w = Map.empty" "scan_ref w = None" "\<not> fault w"
  shows "snap_inv w [] []"
  using assms by (simp add: snap_inv_def)

text \<open>
  C8 (as amended).  In every run of reader borrows, reader releases and scan collections
  that starts with no snapshot, in which \<open>esp_wmngr_put_scan\<close> is called only for
  references that a reader holds (once per borrow) and in which readers hold fewer than
  \<open>2^31 - 2\<close> references whenever one more is borrowed: no assertion fails, and at every
  point of the run every snapshot that a reader has obtained with \<open>esp_wmngr_get_scan\<close>
  and not yet released is live together with its record array, also when newer
  snapshots have replaced \<open>scan_ref\<close> meanwhile; its reference count is the number of
  its holders (the reader borrows, plus one if it is the current snapshot); and the
  release \<open>esp_wmngr_put_scan\<close> frees the snapshot and its array exactly when that takes
  the count from one to zero, and otherwise only decrements the count.
\<close>

theorem scan_snapshot_lifetime:
  assumes "heap w0 = Map.empty" and "arrays w0 = Map.empty" and "scan_ref w0 = None"
    and "\<not> fault w0"
    and "readers_ok P evs (w0, [])"
    and "run_scan P evs (w0, []) = (w, held)"
  shows "\<not> fault w \<and>
         (\<forall>a\<in>set held. \<exists>r p.
            heap w a = Some r \<and> ap_records (data r) = Some p \<and> arrays w p \<noteq> None \<and>
            ref_cnt r = int (count_list held a) + (if scan_ref w = Some a then 1 else 0) \<and>
            (ref_cnt r = 1 \<longrightarrow>
               heap (esp_wmngr_put_scan a w) a = None \<and>
               arrays (esp_wmngr_put_scan a w) p = None) \<and>
            (ref_cnt r \<noteq> 1 \<longrightarrow>
               heap (esp_wmngr_put_scan a w) a = Some (r\<lparr>ref_cnt := ref_cnt r - 1\<rparr>) \<and>
               arrays (esp_wmngr_put_scan a w) = arrays w))"
proof -
  have i0: "snap_inv (fst (w0, [])) (snd (w0, [])) []"
    using snap_inv_initial [OF assms(1,2,3,4)] by simp
  from snap_inv_run_scan [OF i0 assms(5)] assms(6)
  have inv: "snap_inv w held []" by simp
  note D = snap_invD [OF inv]
  have "\<exists>r p.
            heap w a = Some r \<and> ap_records (data r) = Some p \<and> arrays w p \<noteq> None \<and>
            ref_cnt r = int (count_list held a) + (if scan_ref w = Some a then 1 else 0) \<and>
            (ref_cnt r = 1 \<longrightarrow>
               heap (esp_wmngr_put_scan a w) a = None \<and>
               arrays (esp_wmngr_put_scan a w) p = None) \<and>
            (ref_cnt r \<noteq> 1 \<longrightarrow>
               heap (esp_wmngr_put_scan a w) a = Some (r\<lparr>ref_cnt := ref_cnt r - 1\<rparr>) \<and>
               arrays (esp_wmngr_put_scan a w) = arrays w)"
    if a: "a \<in> set held" for a
  proof -
    from D(5) [of a] a obtain r p where r: "heap w a = Some r" "ap_records (data r) = Some p"
      by blast
    have ar: "arrays w p \<noteq> None" using D(7) [OF r] .
    have cnt: "ref_cnt r = int (count_list held a) + (if scan_ref w = Some a then 1 else 0)"
      using D(2) [OF r(1)] by simp
    have put: "(ref_cnt r = 1 \<longrightarrow>
               heap (esp_wmngr_put_scan a w) a = None \<and>
               arrays (esp_wmngr_put_scan a w) p = None) \<and>
            (ref_cnt r \<noteq> 1 \<longrightarrow>
               heap (esp_wmngr_put_scan a w) a = Some (r\<lparr>ref_cnt := ref_cnt r - 1\<rparr>) \<and>
               arrays (esp_wmngr_put_scan a w) = arrays w)"
      unfolding put_scan_eq [OF inv r(1)] using r(2) by simp
    from r ar cnt put show ?thesis by blast
  qed
  with D(1) show ?thesis by blast
qed

text \<open>Two scans, each borrowed by a reader: the first snapshot is at address 0, the second at 2.\<close>

lemmas scan_eval = scan_env_ok_def wifi_scan_done_def
  esp_wmngr_get_scan_def esp_wmngr_put_scan_def kref_put_def kref_get_def
  calloc_scan_ref_def calloc_ap_records_def fetch_ap_records_def publish_scan_def
  free_scan_data_def xEventGroupClearBits_def Let_def MAX_NUM_APS_def atomic_int_wrap_def

lemma scan_trace_run:
  "snd (run_scan esp32_platform scan_trace (world_idle, [])) = [2, 0]"
  "scan_ref (fst (run_scan esp32_platform scan_trace (world_idle, []))) = Some 2"
  "readers_ok esp32_platform scan_trace (world_idle, [])"
  by (simp_all add: scan_trace_def world_idle_def scan_eval)

theorem scan_snapshot_lifetime_witness:
  "\<exists>r p. heap (fst (run_scan esp32_platform scan_trace (world_idle, []))) 0 = Some r \<and>
          ap_records (data r) = Some p \<and>
          arrays (fst (run_scan esp32_platform scan_trace (world_idle, []))) p \<noteq> None \<and>
          ref_cnt r = 1 \<and>
          heap (esp_wmngr_put_scan 0 (fst (run_scan esp32_platform scan_trace (world_idle, [])))) 0
            = None"
proof -
  let ?W = "fst (run_scan esp32_platform scan_trace (world_idle, []))"
  have h: "heap world_idle = Map.empty" "arrays world_idle = Map.empty"
    "scan_ref world_idle = None" "\<not> fault world_idle"
    by (simp_all add: world_idle_def)
  have run: "run_scan esp32_platform scan_trace (world_idle, []) = (?W, [2, 0])"
    using scan_trace_run(1) by (metis prod.collapse)
  from scan_snapshot_lifetime [OF h scan_trace_run(3) run]
  have "\<exists>r p. heap ?W 0 = Some r \<and> ap_records (data r) = Some p \<and> arrays ?W p \<noteq> None \<and>
            ref_cnt r = int (count_list [2, 0] (0::nat)) + (if scan_ref ?W = Some 0 then 1 else 0) \<and>
            (ref_cnt r = 1 \<longrightarrow>
               heap (esp_wmngr_put_scan 0 ?W) 0 = None \<and>
               arrays (esp_wmngr_put_scan 0 ?W) p = None) \<and>
            (ref_cnt r \<noteq> 1 \<longrightarrow>
               heap (esp_wmngr_put_scan 0 ?W) 0 = Some (r\<lparr>ref_cnt := ref_cnt r - 1\<rparr>) \<and>
               arrays (esp_wmngr_put_scan 0 ?W) = arrays ?W)"
    by simp
  then show ?thesis
    by (auto simp add: scan_trace_run(2))
qed

lemma run_scan_append:
  "run_scan P (xs @ ys) s = run_scan P ys (run_scan P xs s)"
  by (induction xs arbitrary: s) simp_all

text \<open>Repeated borrows of the current snapshot, as long as the count does not wrap.\<close>

lemma borrows_run:
  assumes "scan_ref w = Some a" and "heap w a = Some r" and "1 \<le> ref_cnt r"
    and "ref_cnt r + int n < 2 ^ 31"
  shows "run_scan P (replicate n (Reader_get True)) (w, held)
           = (w\<lparr>heap := (heap w)(a \<mapsto> r\<lparr>ref_cnt := ref_cnt r + int n\<rparr>)\<rparr>,
              replicate n a @ held)"
  using assms
proof (induction n arbitrary: w r held)
  case 0
  then show ?case by (simp add: fun_upd_idem)
next
  case (Suc n)
  let ?r = "r\<lparr>ref_cnt := ref_cnt r + 1\<rparr>"
  let ?w = "w\<lparr>heap := (heap w)(a \<mapsto> ?r)\<rparr>"
  have wr: "atomic_int_wrap (ref_cnt r + 1) = ref_cnt r + 1"
    using Suc.prems(3,4) by (simp add: atomic_int_wrap_id)
  have step: "scan_step P (Reader_get True) (w, held) = (?w, a # held)"
    using Suc.prems(1,2,3) wr by (simp add: esp_wmngr_get_scan_def kref_get_def Let_def)
  have ih: "run_scan P (replicate n (Reader_get True)) (?w, a # held)
          = (?w\<lparr>heap := (heap ?w)(a \<mapsto> ?r\<lparr>ref_cnt := ref_cnt ?r + int n\<rparr>)\<rparr>,
             replicate n a @ a # held)"
    using Suc.prems by (intro Suc.IH) simp_all
  have "run_scan P (replicate (Suc n) (Reader_get True)) (w, held)
          = run_scan P (replicate n (Reader_get True)) (?w, a # held)"
    unfolding replicate_Suc run_scan.simps step ..
  also note ih
  finally have run: "run_scan P (replicate (Suc n) (Reader_get True)) (w, held)
      = (?w\<lparr>heap := (heap ?w)(a \<mapsto> ?r\<lparr>ref_cnt := ref_cnt ?r + int n\<rparr>)\<rparr>,
         replicate n a @ a # held)" .
  have h: "?w\<lparr>heap := (heap ?w)(a \<mapsto> ?r\<lparr>ref_cnt := ref_cnt ?r + int n\<rparr>)\<rparr>
      = w\<lparr>heap := (heap w)(a \<mapsto> r\<lparr>ref_cnt := ref_cnt r + int (Suc n)\<rparr>)\<rparr>"
    by (simp add: add.assoc)
  have l: "replicate n a @ a # held = replicate (Suc n) a @ held"
    by (simp add: replicate_app_Cons_same)
  show ?case unfolding run h l ..
qed

lemma world_scanned_eq:
  "scan_ref world_scanned = Some 0"
  "heap world_scanned 0 = Some \<lparr>ref_cnt = 1, status = 0,
      data = \<lparr>tstamp = 1000, ap_records = Some 1, num_records = 5\<rparr>\<rparr>"
  "\<not> fault world_scanned"
  by (simp_all add: world_scanned_def world_idle_def scan_eval)

lemma overflow_run:
  "run_scan esp32_platform overflow_trace (world_idle, [])
     = (world_scanned\<lparr>heap := (heap world_scanned)(0 \<mapsto> \<lparr>ref_cnt = - 2147483648, status = 0,
          data = \<lparr>tstamp = 1000, ap_records = Some 1, num_records = 5\<rparr>\<rparr>)\<rparr>,
        0 # replicate 2147483646 0)"
proof -
  let ?r = "\<lparr>ref_cnt = 1, status = 0,
      data = \<lparr>tstamp = 1000, ap_records = Some 1, num_records = 5 :: 16 word\<rparr>\<rparr>"
  have b: "run_scan esp32_platform many_borrows (world_scanned, [])
      = (world_scanned\<lparr>heap := (heap world_scanned)(0 \<mapsto> ?r\<lparr>ref_cnt := ref_cnt ?r + int 2147483646\<rparr>)\<rparr>,
         replicate 2147483646 0 @ [])"
    unfolding many_borrows_def
    by (rule borrows_run [OF world_scanned_eq(1) world_scanned_eq(2)]) simp_all
  have "run_scan esp32_platform overflow_trace (world_idle, [])
      = run_scan esp32_platform [Reader_get True]
          (run_scan esp32_platform many_borrows (world_scanned, []))"
    by (simp add: overflow_trace_def run_scan_append world_scanned_def)
  then show ?thesis
    unfolding b using world_scanned_eq
    by (simp add: esp_wmngr_get_scan_def kref_get_def Let_def atomic_int_wrap_def)
qed

text \<open>
  C8 as stated fails.  The count protects a borrowed snapshot only against releases
  that match a borrow: after a scan and one borrow (count 2), two calls of
  \<open>esp_wmngr_put_scan\<close> by a caller that holds no reference free the snapshot and its
  record array while the reader still holds it and \<open>scan_ref\<close> still points to it; the
  reader's own release then works on freed memory.  And the count is an \<open>atomic_int\<close>:
  the borrow number \<open>2^31 - 1\<close> of one snapshot wraps it to \<open>-2^31\<close>, and the release
  of any of these borrows fails \<open>configASSERT(old >= 1)\<close>.
\<close>

theorem scan_snapshot_lifetime_counterexample:
  "heap (fst (run_scan esp32_platform excess_put_trace (world_idle, []))) 0 = None \<and>
   arrays (fst (run_scan esp32_platform excess_put_trace (world_idle, []))) 1 = None \<and>
   scan_ref (fst (run_scan esp32_platform excess_put_trace (world_idle, []))) = Some 0 \<and>
   fault (esp_wmngr_put_scan 0 (fst (run_scan esp32_platform excess_put_trace (world_idle, [])))) \<and>
   map_option ref_cnt (heap (fst (run_scan esp32_platform overflow_trace (world_idle, []))) 0)
     = Some (- 2147483648) \<and>
   fault (esp_wmngr_put_scan 0 (fst (run_scan esp32_platform overflow_trace (world_idle, []))))"
proof -
  have "heap (fst (run_scan esp32_platform excess_put_trace (world_idle, []))) 0 = None"
    "arrays (fst (run_scan esp32_platform excess_put_trace (world_idle, []))) 1 = None"
    "scan_ref (fst (run_scan esp32_platform excess_put_trace (world_idle, []))) = Some 0"
    "fault (esp_wmngr_put_scan 0 (fst (run_scan esp32_platform excess_put_trace (world_idle, []))))"
    by (simp_all add: excess_put_trace_def world_idle_def scan_eval)
  moreover have "map_option ref_cnt (heap (fst (run_scan esp32_platform overflow_trace (world_idle, []))) 0)
     = Some (- 2147483648)"
    "fault (esp_wmngr_put_scan 0 (fst (run_scan esp32_platform overflow_trace (world_idle, []))))"
    unfolding overflow_run
    by (simp_all add: esp_wmngr_put_scan_def kref_put_def Let_def)
  ultimately show ?thesis by simp
qed

end
